theory Spec2Isabelle
  imports Main
begin

section \<open>Strings of the tangler\<close>

text \<open>
  The tangler of \<^verbatim>\<open>scripts/bootstrap-tangle.mjs\<close> works on JavaScript strings.
  A string is modelled as a \<^typ>\<open>string\<close>, a list of code units below 256; the
  character classes of the regular expressions are written out for that range.
\<close>

definition is_space :: "char \<Rightarrow> bool" where
  \<comment> \<open>the class \<^verbatim>\<open>\s\<close>, which is also what \<^verbatim>\<open>trim()\<close> removes:
      TAB, LF, VT, FF, CR, space and the no-break space\<close>
  "is_space c = (c \<in> set [CHR 0x09, CHR 0x0A, CHR 0x0B, CHR 0x0C, CHR 0x0D, CHR 0x20, CHR 0xA0])"

definition is_word :: "char \<Rightarrow> bool" where
  \<comment> \<open>the class \<^verbatim>\<open>\w\<close>: letters, digits and the underscore\<close>
  "is_word c = (c \<in> set ''abcdefghijklmnopqrstuvwxyzABCDEFGHIJKLMNOPQRSTUVWXYZ0123456789_'')"

definition is_keychar :: "char \<Rightarrow> bool" where
  \<comment> \<open>the class \<^verbatim>\<open>[\w-]\<close>\<close>
  "is_keychar c = (is_word c \<or> c = CHR ''-'')"

definition is_valchar :: "char \<Rightarrow> bool" where
  \<comment> \<open>the class \<^verbatim>\<open>[^\s:]\<close>\<close>
  "is_valchar c = (\<not> is_space c \<and> c \<noteq> CHR '':'')"

definition is_lineterm :: "char \<Rightarrow> bool" where
  \<comment> \<open>what \<^verbatim>\<open>.\<close> does not match: LF and CR\<close>
  "is_lineterm c = (c = CHR 0x0A \<or> c = CHR 0x0D)"

definition upper_lower :: "(char \<times> char) list" where
  \<comment> \<open>the capital letters with their small letters: A to Z, and those of Latin-1
      (0xC0 to 0xDE without the multiplication sign 0xD7, each 0x20 below its small letter)\<close>
  "upper_lower =
     zip ''ABCDEFGHIJKLMNOPQRSTUVWXYZ'' ''abcdefghijklmnopqrstuvwxyz''
     @ zip [CHR 0xC0, CHR 0xC1, CHR 0xC2, CHR 0xC3, CHR 0xC4, CHR 0xC5, CHR 0xC6, CHR 0xC7, CHR
            0xC8, CHR 0xC9, CHR 0xCA, CHR 0xCB, CHR 0xCC, CHR 0xCD, CHR 0xCE, CHR 0xCF, CHR
            0xD0, CHR 0xD1, CHR 0xD2, CHR 0xD3, CHR 0xD4, CHR 0xD5, CHR 0xD6, CHR 0xD8, CHR
            0xD9, CHR 0xDA, CHR 0xDB, CHR 0xDC, CHR 0xDD, CHR 0xDE]
           [CHR 0xE0, CHR 0xE1, CHR 0xE2, CHR 0xE3, CHR 0xE4, CHR 0xE5, CHR 0xE6, CHR 0xE7, CHR
            0xE8, CHR 0xE9, CHR 0xEA, CHR 0xEB, CHR 0xEC, CHR 0xED, CHR 0xEE, CHR 0xEF, CHR
            0xF0, CHR 0xF1, CHR 0xF2, CHR 0xF3, CHR 0xF4, CHR 0xF5, CHR 0xF6, CHR 0xF8, CHR
            0xF9, CHR 0xFA, CHR 0xFB, CHR 0xFC, CHR 0xFD, CHR 0xFE]"

definition lower_char :: "char \<Rightarrow> char" where
  \<comment> \<open>\<^verbatim>\<open>toLowerCase\<close> on one code unit\<close>
  "lower_char c = (case map_of upper_lower c of Some d \<Rightarrow> d | None \<Rightarrow> c)"

definition toLowerCase :: "string \<Rightarrow> string" where
  "toLowerCase s = map lower_char s"

definition trim :: "string \<Rightarrow> string" where
  "trim s = rev (dropWhile is_space (rev (dropWhile is_space s)))"

definition startsWith :: "string \<Rightarrow> string \<Rightarrow> bool" where
  "startsWith s p = (take (length p) s = p)"

definition endsWith :: "string \<Rightarrow> string \<Rightarrow> bool" where
  "endsWith s p = (length p \<le> length s \<and> drop (length s - length p) s = p)"

definition startsWith_ci :: "string \<Rightarrow> string \<Rightarrow> bool" where
  \<comment> \<open>a literal of a regular expression with the flag \<^verbatim>\<open>i\<close>, anchored here;
      \<open>p\<close> is given in lower case\<close>
  "startsWith_ci s p = (toLowerCase (take (length p) s) = p)"

fun split_nl :: "string \<Rightarrow> string list" where
  \<comment> \<open>\<^verbatim>\<open>s.split('\n')\<close>: never empty\<close>
  "split_nl [] = [[]]"
| "split_nl (c # cs) =
     (if c = CHR 0x0A then [] # split_nl cs
      else (case split_nl cs of l # ls \<Rightarrow> (c # l) # ls | [] \<Rightarrow> [[c]]))"

fun join_nl :: "string list \<Rightarrow> string" where
  \<comment> \<open>\<^verbatim>\<open>parts.join('\n')\<close>\<close>
  "join_nl [] = []"
| "join_nl [l] = l"
| "join_nl (l # ls) = l @ CHR 0x0A # join_nl ls"

fun normalize_eol :: "string \<Rightarrow> string" where
  \<comment> \<open>\<^verbatim>\<open>content.replace(/\r\n/g, '\n').replace(/\r/g, '\n')\<close>\<close>
  "normalize_eol [] = []"
| "normalize_eol [c] = (if c = CHR 0x0D then [CHR 0x0A] else [c])"
| "normalize_eol (c # d # cs) =
     (if c = CHR 0x0D \<and> d = CHR 0x0A then CHR 0x0A # normalize_eol cs
      else if c = CHR 0x0D then CHR 0x0A # normalize_eol (d # cs)
      else c # normalize_eol (d # cs))"

section \<open>Header arguments\<close>

text \<open>
  A header argument is bound to a string or, after the pass over the boolean flags, to a
  boolean. An \<^verbatim>\<open>args\<close> object is a map from keys to such values; a key that is
  not there reads as \<^verbatim>\<open>undefined\<close>, which is \<^term>\<open>None\<close>.
\<close>

datatype hval = Str string | Bool bool

type_synonym hargs = "string \<rightharpoonup> hval"

fun truthy :: "hval option \<Rightarrow> bool" where
  "truthy None = False"
| "truthy (Some (Str s)) = (s \<noteq> [])"
| "truthy (Some (Bool b)) = b"

definition js_or :: "hval option \<Rightarrow> hval option \<Rightarrow> hval option" where
  \<comment> \<open>\<^verbatim>\<open>a || b\<close>\<close>
  "js_or a b = (if truthy a then a else b)"

definition set_arg :: "hargs \<Rightarrow> string \<Rightarrow> hval \<Rightarrow> hargs" where
  \<comment> \<open>\<^verbatim>\<open>args[key] = value\<close> on a plain object: assigning a string or a boolean to
      \<^verbatim>\<open>__proto__\<close> creates no property\<close>
  "set_arg a k v = (if k = ''__proto__'' then a else a(k \<mapsto> v))"

definition argMatchAt :: "string \<Rightarrow> (string \<times> string \<times> string) option" where
  \<comment> \<open>one match of \<^verbatim>\<open>/:([\w-]+)\s+([^\s:]+|"[^"]*")/\<close> starting at the head of the
      string: key, value and the text after the match. Every repetition is greedy and
      is followed by a character outside its class, so each takes the longest run; the
      second alternative is never reached, a double quote being in \<^verbatim>\<open>[^\s:]\<close>.\<close>
  "argMatchAt s =
     (case s of
        [] \<Rightarrow> None
      | c # r \<Rightarrow>
          if c \<noteq> CHR '':'' then None
          else let key = takeWhile is_keychar r; r1 = dropWhile is_keychar r;
                   ws = takeWhile is_space r1; r2 = dropWhile is_space r1;
                   v = takeWhile is_valchar r2; r3 = dropWhile is_valchar r2
               in if key = [] \<or> ws = [] \<or> v = [] then None else Some (key, v, r3))"

definition word_boundary :: "string \<Rightarrow> bool" where
  \<comment> \<open>\<^verbatim>\<open>\b\<close> after a word character: the end of the string or a character that is
      not of \<^verbatim>\<open>\w\<close>\<close>
  "word_boundary r = (case r of [] \<Rightarrow> True | c # _ \<Rightarrow> \<not> is_word c)"

definition flagWord :: "string \<Rightarrow> (string \<times> string) option" where
  \<comment> \<open>\<^verbatim>\<open>(yes|no|t|nil)\b\<close> with the flag \<^verbatim>\<open>i\<close>, the alternatives in their
      order: the word in lower case and the text after it\<close>
  "flagWord r =
     (if startsWith_ci r ''yes'' \<and> word_boundary (drop 3 r) then Some (''yes'', drop 3 r)
      else if startsWith_ci r ''no'' \<and> word_boundary (drop 2 r) then Some (''no'', drop 2 r)
      else if startsWith_ci r ''t'' \<and> word_boundary (drop 1 r) then Some (''t'', drop 1 r)
      else if startsWith_ci r ''nil'' \<and> word_boundary (drop 3 r) then Some (''nil'', drop 3 r)
      else None)"

definition flagMatchAt :: "string \<Rightarrow> (string \<times> string \<times> string) option" where
  \<comment> \<open>one match of \<^verbatim>\<open>/:([\w-]+)\s+(yes|no|t|nil)\b/i\<close> at the head of the string\<close>
  "flagMatchAt s =
     (case s of
        [] \<Rightarrow> None
      | c # r \<Rightarrow>
          if c \<noteq> CHR '':'' then None
          else let key = takeWhile is_keychar r; r1 = dropWhile is_keychar r;
                   ws = takeWhile is_space r1; r2 = dropWhile is_space r1
               in if key = [] \<or> ws = [] then None
                  else (case flagWord r2 of
                          None \<Rightarrow> None
                        | Some (w, r3) \<Rightarrow> Some (key, w, r3)))"

lemma argMatchAt_shorter: "argMatchAt s = Some (k, v, r) \<Longrightarrow> length r < length s"
proof -
  assume a: "argMatchAt s = Some (k, v, r)"
  then obtain c t where s: "s = c # t" by (cases s) (auto simp: argMatchAt_def)
  from a s have "r = dropWhile is_valchar (dropWhile is_space (dropWhile is_keychar t))"
    by (auto simp: argMatchAt_def Let_def split: if_splits)
  moreover have "length (dropWhile is_valchar (dropWhile is_space (dropWhile is_keychar t)))
      \<le> length t"
    by (meson length_dropWhile_le order_trans)
  ultimately show ?thesis using s by simp
qed

lemma flagWord_shorter: "flagWord r = Some (w, r') \<Longrightarrow> length r' \<le> length r"
  by (auto simp: flagWord_def split: if_splits)

lemma flagMatchAt_shorter: "flagMatchAt s = Some (k, w, r) \<Longrightarrow> length r < length s"
proof -
  assume a: "flagMatchAt s = Some (k, w, r)"
  then obtain c t where s: "s = c # t" by (cases s) (auto simp: flagMatchAt_def)
  from a s have "flagWord (dropWhile is_space (dropWhile is_keychar t)) = Some (w, r)"
    by (auto simp: flagMatchAt_def Let_def split: if_splits option.splits)
  then have "length r \<le> length (dropWhile is_space (dropWhile is_keychar t))"
    by (rule flagWord_shorter)
  moreover have "length (dropWhile is_space (dropWhile is_keychar t)) \<le> length t"
    by (meson length_dropWhile_le order_trans)
  ultimately show ?thesis using s by simp
qed

function scanArgs :: "string \<Rightarrow> (string \<times> string) list" where
  \<comment> \<open>the loop \<^verbatim>\<open>while ((argMatch = argRegex.exec(argsStr)) !== null)\<close>: the matches
      from left to right, each search resuming where the last match ended\<close>
  "scanArgs [] = []"
| "scanArgs (c # cs) =
     (case argMatchAt (c # cs) of
        Some (k, v, r) \<Rightarrow> (k, v) # scanArgs r
      | None \<Rightarrow> scanArgs cs)"
  by pat_completeness auto
termination
  by (relation "measure length") (auto dest: argMatchAt_shorter)

function scanFlags :: "string \<Rightarrow> (string \<times> string) list" where
  \<comment> \<open>the loop over \<^verbatim>\<open>flagRegex.exec(argsStr)\<close>\<close>
  "scanFlags [] = []"
| "scanFlags (c # cs) =
     (case flagMatchAt (c # cs) of
        Some (k, w, r) \<Rightarrow> (k, w) # scanFlags r
      | None \<Rightarrow> scanFlags cs)"
  by pat_completeness auto
termination
  by (relation "measure length") (auto dest: flagMatchAt_shorter)

definition unquote :: "string \<Rightarrow> string" where
  \<comment> \<open>\<^verbatim>\<open>if (value.startsWith('"') && value.endsWith('"')) value = value.slice(1, -1)\<close>\<close>
  "unquote v = (if startsWith v [CHR 0x22] \<and> endsWith v [CHR 0x22] then butlast (tl v) else v)"

definition bindArgs :: "hargs \<Rightarrow> (string \<times> string) list \<Rightarrow> hargs" where
  "bindArgs a ms = fold (\<lambda>(k, v) a. set_arg a k (Str (unquote v))) ms a"

definition bindFlags :: "hargs \<Rightarrow> (string \<times> string) list \<Rightarrow> hargs" where
  "bindFlags a ms = fold (\<lambda>(k, w) a. set_arg a k (Bool (w = ''yes'' \<or> w = ''t''))) ms a"

definition parseArgsStr :: "string \<Rightarrow> hargs" where
  \<comment> \<open>the two passes of \<^verbatim>\<open>parseHeaderArgs\<close> over \<^verbatim>\<open>argsStr\<close>: the values
      first, the boolean flags after them\<close>
  "parseArgsStr argsStr = bindFlags (bindArgs Map.empty (scanArgs argsStr)) (scanFlags argsStr)"

definition beginSrcMatch :: "string \<Rightarrow> (string \<times> string) option" where
  \<comment> \<open>\<^verbatim>\<open>line.match(/^#\+begin_src\s+(\S+)(.*)$/i)\<close>: the language and the rest\<close>
  "beginSrcMatch line =
     (if \<not> startsWith_ci line ''#+begin_src'' then None
      else let r = drop 11 line;
               ws = takeWhile is_space r; r1 = dropWhile is_space r;
               lang = takeWhile (\<lambda>c. \<not> is_space c) r1; r2 = dropWhile (\<lambda>c. \<not> is_space c) r1
           in if ws = [] \<or> lang = [] \<or> (\<exists>c \<in> set r2. is_lineterm c) then None
              else Some (lang, r2))"

definition parseHeaderArgs :: "string \<Rightarrow> string \<times> hargs" where
  "parseHeaderArgs line =
     (case beginSrcMatch line of
        None \<Rightarrow> ([], Map.empty)
      | Some (lang, rest) \<Rightarrow> (lang, parseArgsStr (trim rest)))"


section \<open>Blocks and the document scanner\<close>

record SourceBlock =
  name :: "string option"  \<comment> \<open>\<^verbatim>\<open>null\<close> is \<^term>\<open>None\<close>\<close>
  language :: string
  content :: string
  headerArgs :: hargs
  startLine :: nat
  contentStartLine :: nat
  endLine :: int
  sourcePath :: string

type_synonym fileProperties = "string \<rightharpoonup> hargs"

definition propsOf :: "fileProperties \<Rightarrow> string \<Rightarrow> hargs" where
  \<comment> \<open>\<^verbatim>\<open>fileProperties[key] || {}\<close>\<close>
  "propsOf fp k = (case fp k of None \<Rightarrow> Map.empty | Some a \<Rightarrow> a)"

definition mergeArgs :: "fileProperties \<Rightarrow> string \<Rightarrow> hargs \<Rightarrow> hargs" where
  \<comment> \<open>lines 139 to 149 of \<^verbatim>\<open>extractBlocks\<close>: the global properties, then those of
      the language, then the block's own arguments; a block with a noweb-ref and no
      \<^verbatim>\<open>tangle\<close> of its own gets \<^verbatim>\<open>tangle = 'no'\<close>\<close>
  "mergeArgs fp lang args =
     (let globalProps = propsOf fp ''*'';
          langProps = propsOf fp lang;
          mergedArgs = globalProps ++ langProps ++ args;
          hasNowebRef = js_or (args ''noweb-ref'') (args ''nowebRef'');
          hasTangleInBlock = (args ''tangle'' \<noteq> None)
      in if truthy hasNowebRef \<and> \<not> hasTangleInBlock
         then mergedArgs(''tangle'' \<mapsto> Str ''no'') else mergedArgs)"

definition beginBlock ::
  "fileProperties \<Rightarrow> string \<Rightarrow> string option \<Rightarrow> nat \<Rightarrow> string \<Rightarrow> SourceBlock" where
  \<comment> \<open>the block that a \<^verbatim>\<open>#+begin_src\<close> line opens (lines 137 to 160)\<close>
  "beginBlock fp path currentName i line =
     (case parseHeaderArgs (trim line) of (lang, args) \<Rightarrow>
        \<lparr> name = currentName, language = lang, content = [],
          headerArgs = mergeArgs fp lang args,
          startLine = i, contentStartLine = i + 1, endLine = - 1, sourcePath = path \<rparr>)"

fun strip_nl_comma :: "string \<Rightarrow> string" where
  \<comment> \<open>\<^verbatim>\<open>replace(/(\n),#\+/g, '$1#+')\<close>\<close>
  "strip_nl_comma (a # b # c # d # r) =
     (if a = CHR 0x0A \<and> b = CHR '','' \<and> c = CHR ''#'' \<and> d = CHR ''+''
      then a # c # d # strip_nl_comma r
      else a # strip_nl_comma (b # c # d # r))"
| "strip_nl_comma s = s"

fun strip_bt_comma :: "string \<Rightarrow> string" where
  \<comment> \<open>\<^verbatim>\<open>replace(/`,#\+/g, '`#+')\<close>\<close>
  "strip_bt_comma (a # b # c # d # r) =
     (if a = CHR 0x60 \<and> b = CHR '','' \<and> c = CHR ''#'' \<and> d = CHR ''+''
      then a # c # d # strip_bt_comma r
      else a # strip_bt_comma (b # c # d # r))"
| "strip_bt_comma s = s"

definition contentLine :: "string \<Rightarrow> string" where
  \<comment> \<open>lines 181 to 190: the comma escapes are taken off a content line\<close>
  "contentLine line =
     strip_bt_comma (strip_nl_comma (if startsWith line '','' then tl line else line))"

definition strip_final_nl :: "string \<Rightarrow> string" where
  \<comment> \<open>\<^verbatim>\<open>content.replace(/\n$/, '')\<close>\<close>
  "strip_final_nl s = (if s \<noteq> [] \<and> last s = CHR 0x0A then butlast s else s)"

definition nameOfLine :: "string \<Rightarrow> string" where
  \<comment> \<open>\<^verbatim>\<open>line.substring(line.indexOf(':') + 1).trim()\<close>, on a line that holds a colon\<close>
  "nameOfLine line = trim (drop (length (takeWhile (\<lambda>c. c \<noteq> CHR '':'') line) + 1) line)"

record scan_state =
  blocks :: "SourceBlock list"
  currentName :: "string option"
  inBlock :: bool
  currentBlock :: "SourceBlock option"
  inExampleBlock :: bool

definition scan_init :: scan_state where
  "scan_init = \<lparr> blocks = [], currentName = None, inBlock = False,
                 currentBlock = None, inExampleBlock = False \<rparr>"

definition scanLine :: "fileProperties \<Rightarrow> string \<Rightarrow> scan_state \<Rightarrow> nat \<times> string \<Rightarrow> scan_state" where
  \<comment> \<open>one turn of the loop of \<^verbatim>\<open>extractBlocks\<close> (lines 106 to 193), on line
      \<open>i\<close>; each \<^verbatim>\<open>continue\<close> is a branch\<close>
  "scanLine fp path s il =
     (case il of (i, line) \<Rightarrow>
      let trimmed = toLowerCase (trim line);
          isAtColumnZero = startsWith line ''#+''
      in if \<not> inBlock s \<and> isAtColumnZero \<and> startsWith trimmed ''#+begin_example''
           then s\<lparr>inExampleBlock := True\<rparr>
         else if \<not> inBlock s \<and> isAtColumnZero \<and> startsWith trimmed ''#+end_example''
           then s\<lparr>inExampleBlock := False\<rparr>
         else if inExampleBlock s then s
         else if isAtColumnZero \<and> startsWith trimmed ''#+name:'' \<and> \<not> inBlock s
           then s\<lparr>currentName := Some (nameOfLine line)\<rparr>
         else if isAtColumnZero \<and> startsWith trimmed ''#+begin_src'' \<and> \<not> inBlock s
           then s\<lparr>currentBlock := Some (beginBlock fp path (currentName s) i line),
                  inBlock := True, currentName := None\<rparr>
         else if isAtColumnZero \<and> startsWith trimmed ''#+end_src'' \<and> inBlock s
           then (case currentBlock s of
                   None \<Rightarrow> s
                 | Some b \<Rightarrow>
                     s\<lparr>blocks := blocks s @ [b\<lparr>endLine := int i, content := strip_final_nl (content b)\<rparr>],
                       currentBlock := None, inBlock := False\<rparr>)
         else (case currentBlock s of
                 None \<Rightarrow> s
               | Some b \<Rightarrow>
                   if inBlock s
                   then s\<lparr>currentBlock := Some (b\<lparr>content := content b @ contentLine line @ [CHR 0x0A]\<rparr>)\<rparr>
                   else s))"

definition scanLines :: "fileProperties \<Rightarrow> string \<Rightarrow> scan_state \<Rightarrow> (nat \<times> string) list \<Rightarrow> scan_state" where
  "scanLines fp path s ils = foldl (scanLine fp path) s ils"

definition extractBlocks :: "string \<Rightarrow> string \<Rightarrow> fileProperties \<Rightarrow> SourceBlock list" where
  "extractBlocks text path fp =
     (let lines = split_nl (normalize_eol text)
      in blocks (scanLines fp path scan_init (zip [0 ..< length lines] lines)))"

subsection \<open>Document properties\<close>

definition propMatch :: "string \<Rightarrow> (string \<times> string) option" where
  \<comment> \<open>\<^verbatim>\<open>trimmed.match(/^#\+PROPERTY:\s+header-args(?::(\w+))?\s+(.+)$/i)\<close> on a
      trimmed line: the language tag (\<^verbatim>\<open>'*'\<close> when the group took nothing) and the
      arguments. A trimmed line does not end in white space, so the last
      \<^verbatim>\<open>\s+\<close> takes its longest run.\<close>
  "propMatch t =
     (if \<not> startsWith_ci t ''#+property:'' then None
      else let r = drop 11 t;
               ws = takeWhile is_space r; r1 = dropWhile is_space r
           in if ws = [] \<or> \<not> startsWith_ci r1 ''header-args'' then None
              else let r2 = drop 11 r1;
                       tagged = (r2 \<noteq> [] \<and> hd r2 = CHR '':'' \<and> takeWhile is_word (tl r2) \<noteq> []);
                       lang = (if tagged then takeWhile is_word (tl r2) else ''*'');
                       r3 = (if tagged then dropWhile is_word (tl r2) else r2);
                       ws2 = takeWhile is_space r3; r4 = dropWhile is_space r3
                   in if ws2 = [] \<or> r4 = [] \<or> (\<exists>c \<in> set r4. is_lineterm c) then None
                      else Some (lang, r4))"

definition addProperty :: "fileProperties \<Rightarrow> string \<Rightarrow> fileProperties" where
  \<comment> \<open>one turn of the loop of \<^verbatim>\<open>extractFileProperties\<close>; the language tags are
      taken to be other than \<^verbatim>\<open>__proto__\<close>\<close>
  "addProperty props line =
     (case propMatch (trim line) of
        None \<Rightarrow> props
      | Some (lang, argsStr) \<Rightarrow>
          props(lang \<mapsto> propsOf props lang ++ snd (parseHeaderArgs (''#+begin_src dummy '' @ argsStr))))"

definition extractFileProperties :: "string \<Rightarrow> fileProperties" where
  "extractFileProperties text = foldl addProperty Map.empty (split_nl (normalize_eol text))"


section \<open>The store of blocks and the reference index\<close>

text \<open>
  The blocks are objects that the index and the targets share: a block is reached
  through its address, and the store maps every address to the block that is there now.
  \<^verbatim>\<open>allBlocks\<close>, the lists of the index and the lists of the targets hold addresses.
\<close>

type_synonym heap = "nat \<Rightarrow> SourceBlock"

type_synonym blockIndex = "(hval \<times> nat list) list"

definition index_push :: "('k \<times> nat list) list \<Rightarrow> 'k \<Rightarrow> nat \<Rightarrow> ('k \<times> nat list) list" where
  \<comment> \<open>\<^verbatim>\<open>if (!index.has(k)) index.set(k, []); index.get(k).push(block)\<close>; a
      \<^verbatim>\<open>Map\<close> keeps its keys in the order of their insertion\<close>
  "index_push idx k a =
     (if k \<in> fst ` set idx
      then map (\<lambda>(k', v). if k' = k then (k', v @ [a]) else (k', v)) idx
      else idx @ [(k, [a])])"

definition indexBlock :: "heap \<Rightarrow> blockIndex \<Rightarrow> nat \<Rightarrow> blockIndex" where
  \<comment> \<open>one turn of the loop of \<^verbatim>\<open>buildBlockIndex\<close>\<close>
  "indexBlock h idx a =
     (let block = h a;
          idx1 = (case name block of
                    None \<Rightarrow> idx
                  | Some n \<Rightarrow> if n \<noteq> [] then index_push idx (Str n) a else idx);
          nowebRef = js_or (headerArgs block ''noweb-ref'') (headerArgs block ''nowebRef'')
      in (case nowebRef of
            None \<Rightarrow> idx1
          | Some r \<Rightarrow>
              if truthy nowebRef \<and> Some r \<noteq> map_option Str (name block)
              then index_push idx1 r a else idx1))"

definition buildBlockIndex :: "heap \<Rightarrow> nat list \<Rightarrow> blockIndex" where
  "buildBlockIndex h allBlocks = foldl (indexBlock h) [] allBlocks"

section \<open>Noweb expansion\<close>

definition nowebMatch :: "string \<Rightarrow> (string \<times> string \<times> string) option" where
  \<comment> \<open>\<^verbatim>\<open>line.match(/^(\s*)<<([^>]+)>>(.*)$/)\<close>: the leading indent, the name and
      the trailing text. The white space and the name take their longest runs, as what
      follows each is outside its class.\<close>
  "nowebMatch line =
     (let leadingIndent = takeWhile is_space line; r1 = dropWhile is_space line
      in if \<not> startsWith r1 ''<<'' then None
         else let refName = takeWhile (\<lambda>c. c \<noteq> CHR ''>'') (drop 2 r1);
                  r2 = dropWhile (\<lambda>c. c \<noteq> CHR ''>'') (drop 2 r1)
              in if refName = [] \<or> \<not> startsWith r2 ''>>'' \<or> (\<exists>c \<in> set (drop 2 r2). is_lineterm c)
                 then None
                 else Some (leadingIndent, refName, drop 2 r2))"

definition add_trailing :: "string list \<Rightarrow> string \<Rightarrow> string list" where
  \<comment> \<open>\<^verbatim>\<open>if (trailing) result[result.length - 1] += trailing\<close>, on the lines that the
      reference has just pushed; they are never none\<close>
  "add_trailing ls trailing =
     (if trailing = [] \<or> ls = [] then ls else butlast ls @ [last ls @ trailing])"

definition unvisited :: "blockIndex \<Rightarrow> string set \<Rightarrow> nat" where
  "unvisited idx visited = card (fst ` set idx - Str ` visited)"

lemma unvisited_insert:
  assumes "map_of idx (Str n) = Some v" and "n \<notin> visited"
  shows "unvisited idx (insert n visited) < unvisited idx visited"
proof -
  have fin: "finite (fst ` set idx - Str ` visited)" by simp
  from assms(1) have "Str n \<in> fst ` set idx"
    by (metis map_of_eq_None_iff option.distinct(1))
  with assms(2) have mem: "Str n \<in> fst ` set idx - Str ` visited" by auto
  have "fst ` set idx - Str ` insert n visited = (fst ` set idx - Str ` visited) - {Str n}"
    by auto
  moreover from fin mem have "card ((fst ` set idx - Str ` visited) - {Str n})
      < card (fst ` set idx - Str ` visited)"
    by (rule card_Diff1_less)
  ultimately show ?thesis
    unfolding unvisited_def by (simp only:)
qed

text \<open>
  \<^verbatim>\<open>expandNoweb\<close> (lines 266 to 315). The set \<^verbatim>\<open>visited\<close> is shared by all the
  calls, but a name is added only when it is not there and is deleted again once its
  blocks are expanded, so every call returns with the set it was given: the set is passed
  down as a value. \<open>expandLines\<close> is the loop over the lines, giving the lines pushed
  to \<^verbatim>\<open>result\<close>; \<open>expandBlocks\<close> is the loop over the blocks of one name.
\<close>

function expandNoweb :: "heap \<Rightarrow> blockIndex \<Rightarrow> string set \<Rightarrow> string \<Rightarrow> string \<Rightarrow> string"
  and expandLines :: "heap \<Rightarrow> blockIndex \<Rightarrow> string set \<Rightarrow> string \<Rightarrow> string list \<Rightarrow> string list"
  and expandBlocks :: "heap \<Rightarrow> blockIndex \<Rightarrow> string set \<Rightarrow> string \<Rightarrow> nat list \<Rightarrow> string list"
where
  "expandNoweb h idx visited indent str =
     join_nl (expandLines h idx visited indent (split_nl str))"
| "expandLines h idx visited indent [] = []"
| "expandLines h idx visited indent (line # lines) =
     (case nowebMatch line of
        None \<Rightarrow> (indent @ line) # expandLines h idx visited indent lines
      | Some (leadingIndent, refName, trailing) \<Rightarrow>
          if refName \<in> visited
          then (indent @ leadingIndent @ ''/* ERROR: Circular reference to '' @ refName @ '' */'' @ trailing)
                 # expandLines h idx visited indent lines
          else (case map_of idx (Str refName) of
                  None \<Rightarrow>
                    (indent @ leadingIndent @ ''<<'' @ refName @ ''>>'' @ trailing)
                      # expandLines h idx visited indent lines
                | Some [] \<Rightarrow>
                    (indent @ leadingIndent @ ''<<'' @ refName @ ''>>'' @ trailing)
                      # expandLines h idx visited indent lines
                | Some (a # as) \<Rightarrow>
                    add_trailing
                      (expandBlocks h idx (insert refName visited) (indent @ leadingIndent) (a # as))
                      trailing
                    @ expandLines h idx visited indent lines))"
| "expandBlocks h idx visited indent [] = []"
| "expandBlocks h idx visited indent [a] =
     split_nl (expandNoweb h idx visited indent (content (h a)))"
| "expandBlocks h idx visited indent (a # b # as) =
     split_nl (expandNoweb h idx visited indent (content (h a))) @ [[]]
       @ expandBlocks h idx visited indent (b # as)"
  by pat_completeness auto
termination
  by (relation "inv_image (less_than <*lex*> less_than <*lex*> less_than)
        (\<lambda>x. case x of
           Inl (h, idx, visited, indent, str) \<Rightarrow> (unvisited idx visited, 1::nat, 0::nat)
         | Inr (Inl (h, idx, visited, indent, lines)) \<Rightarrow> (unvisited idx visited, 0, length lines)
         | Inr (Inr (h, idx, visited, indent, as)) \<Rightarrow> (unvisited idx visited, 2, length as))")
     (auto simp: unvisited_insert)


section \<open>Targets\<close>

text \<open>
  The functions of Node's \<^verbatim>\<open>path\<close> module and the working directory are not code of
  the tangler: they are parameters of the model.
\<close>

record path_module =
  dirname :: "string \<Rightarrow> string"
  resolve :: "string \<Rightarrow> string \<Rightarrow> string"
  relative :: "string \<Rightarrow> string \<Rightarrow> string"
  cwd :: string

definition extensions :: "(string \<times> string) list" where
  "extensions =
     [(''typescript'', ''.ts''), (''javascript'', ''.js''), (''python'', ''.py''),
      (''rust'', ''.rs''), (''go'', ''.go''), (''java'', ''.java''), (''c'', ''.c''),
      (''cpp'', ''.cpp''), (''sh'', ''.sh''), (''bash'', ''.sh''), (''ruby'', ''.rb''),
      (''json'', ''.json''), (''yaml'', ''.yaml''), (''yml'', ''.yml''),
      (''markdown'', ''.md''), (''org'', ''.org'')]"

definition getExtensionForLanguage :: "string \<Rightarrow> string" where
  \<comment> \<open>\<^verbatim>\<open>extensions[lang.toLowerCase()] || '.txt'\<close>, for a language that is not the
      name of a property every object inherits\<close>
  "getExtensionForLanguage lang =
     (case map_of extensions (toLowerCase lang) of Some e \<Rightarrow> e | None \<Rightarrow> ''.txt'')"

definition strip_org :: "string \<Rightarrow> string" where
  \<comment> \<open>\<^verbatim>\<open>sourcePath.replace(/\.org$/, '')\<close>\<close>
  "strip_org p = (if endsWith p ''.org'' then take (length p - 4) p else p)"

definition targetOf :: "path_module \<Rightarrow> SourceBlock \<Rightarrow> string option" where
  \<comment> \<open>the body of the loop of \<^verbatim>\<open>groupByTarget\<close> (lines 410 to 435): the path of the
      target that takes the block, \<^term>\<open>None\<close> where the loop goes on to the next block\<close>
  "targetOf pm block =
     (let hasNowebRef = js_or (headerArgs block ''noweb-ref'') (headerArgs block ''nowebRef'');
          hasTangle = (headerArgs block ''tangle'' \<noteq> None);
          tangle = headerArgs block ''tangle''
      in if truthy hasNowebRef \<and> \<not> hasTangle then None
         else if \<not> truthy tangle \<or> tangle = Some (Str ''no'') \<or> tangle = Some (Bool False) then None
         else if tangle = Some (Bool True) \<or> tangle = Some (Str ''yes'')
           then Some (strip_org (sourcePath block) @ getExtensionForLanguage (language block))
         else (case tangle of
                 Some (Str p) \<Rightarrow> Some (resolve pm (dirname pm (sourcePath block)) p)
               | _ \<Rightarrow> None))"

definition groupByTarget :: "path_module \<Rightarrow> heap \<Rightarrow> nat list \<Rightarrow> (string \<times> nat list) list" where
  "groupByTarget pm h allBlocks =
     foldl (\<lambda>targets a. case targetOf pm (h a) of
                            None \<Rightarrow> targets
                          | Some targetPath \<Rightarrow> index_push targets targetPath a)
       [] allBlocks"

definition fileExt :: "string \<Rightarrow> string" where
  \<comment> \<open>\<^verbatim>\<open>targetPath.split('.').pop()?.toLowerCase() || ''\<close>: what follows the last dot,
      the whole path when it has none\<close>
  "fileExt targetPath = toLowerCase (rev (takeWhile (\<lambda>c. c \<noteq> CHR ''.'') (rev targetPath)))"

definition getCommentPrefix :: "string \<Rightarrow> string" where
  "getCommentPrefix targetPath =
     (let ext = fileExt targetPath
      in if ext \<in> set [''py'', ''sh'', ''bash'', ''zsh'', ''fish'', ''toml'', ''rb'', ''pl'', ''r''] then ''#''
         else if ext \<in> set [''lisp'', ''el'', ''clj'', ''scm''] then '';;''
         else if ext \<in> set [''lua'', ''sql'', ''hs''] then ''--''
         else if ext = ''css'' then ''/*''
         else if ext \<in> set [''html'', ''xml''] then ''<!--''
         else if ext \<in> set [''json'', ''yaml'', ''yml'', ''md'', ''org'', ''wasm'', ''txt''] then []
         else ''//'')"

definition getCommentSuffix :: "string \<Rightarrow> string" where
  "getCommentSuffix targetPath =
     (let ext = fileExt targetPath
      in if ext = ''css'' then '' */''
         else if ext \<in> set [''html'', ''xml''] then '' -->''
         else [])"

function show_nat :: "nat \<Rightarrow> string" where
  \<comment> \<open>a number in a template literal: its decimal digits\<close>
  "show_nat n = (if n < 10 then [''0123456789'' ! n] else show_nat (n div 10) @ [''0123456789'' ! (n mod 10)])"
  by pat_completeness auto
termination
  by (relation "measure id") auto

definition js_str :: "hval \<Rightarrow> string" where
  \<comment> \<open>a value as \<^verbatim>\<open>join\<close> writes it\<close>
  "js_str v = (case v of Str s \<Rightarrow> s | Bool b \<Rightarrow> if b then ''true'' else ''false'')"

definition join_comma :: "string list \<Rightarrow> string" where
  \<comment> \<open>\<^verbatim>\<open>join(', ')\<close>\<close>
  "join_comma ls = (case ls of [] \<Rightarrow> [] | l # r \<Rightarrow> foldl (\<lambda>acc x. acc @ '', '' @ x) l r)"

definition uniq :: "string list \<Rightarrow> string list" where
  \<comment> \<open>\<^verbatim>\<open>[...new Set(xs)]\<close>: the first occurrence of each element, in order\<close>
  "uniq xs = rev (remdups (rev xs))"

definition skipsComments :: "heap \<Rightarrow> nat list \<Rightarrow> string \<Rightarrow> bool" where
  \<comment> \<open>lines 457 to 467\<close>
  "skipsComments h tblocks targetPath =
     (let isJson = endsWith targetPath ''.json'';
          isYaml = (endsWith targetPath ''.yaml'' \<or> endsWith targetPath ''.yml'');
          isMarkdown = endsWith targetPath ''.md'';
          isOrg = endsWith targetPath ''.org'';
          isBinary = endsWith targetPath ''.wasm'';
          noComments = (\<exists>a \<in> set tblocks. headerArgs (h a) ''comments'' = Some (Str ''no'')
                          \<or> headerArgs (h a) ''comments'' = Some (Bool False))
      in isJson \<or> isYaml \<or> isMarkdown \<or> isOrg \<or> isBinary \<or> noComments)"

definition blockParts :: "path_module \<Rightarrow> heap \<Rightarrow> blockIndex \<Rightarrow> string \<Rightarrow> bool \<Rightarrow> nat \<Rightarrow> string list" where
  \<comment> \<open>what one turn of the loop of lines 504 to 520 pushes to \<^verbatim>\<open>parts\<close>\<close>
  "blockParts pm h idx targetPath framing a =
     (let block = h a;
          commentPrefix = getCommentPrefix targetPath;
          commentSuffix = getCommentSuffix targetPath;
          expanded = (if endsWith targetPath ''.org'' then content block
                      else expandNoweb h idx {} [] (content block))
      in (if framing
          then [commentPrefix @ '' [[file:'' @ relative pm (cwd pm) (sourcePath block) @ ''::''
                  @ show_nat (startLine block + 1) @ '']]'' @ commentSuffix]
          else [])
         @ [expanded]
         @ (if framing
            then [commentPrefix @ '' '' @ (case name block of None \<Rightarrow> ''unnamed''
                                           | Some n \<Rightarrow> if n = [] then ''unnamed'' else n)
                    @ '' ends here'' @ commentSuffix, []]
            else []))"

definition firstLineOf :: "string \<Rightarrow> string" where
  \<comment> \<open>\<^verbatim>\<open>content.split('\n')[0]\<close>\<close>
  "firstLineOf c = takeWhile (\<lambda>x. x \<noteq> CHR 0x0A) c"

fun findShebang :: "heap \<Rightarrow> nat list \<Rightarrow> hval option \<times> heap" where
  \<comment> \<open>the loop of lines 472 to 487: the shebang, and the store after the loop. A block
      whose first line is taken has that line and its newline cut off its content.\<close>
  "findShebang h [] = (None, h)"
| "findShebang h (a # as) =
     (let block = h a
      in if truthy (headerArgs block ''shebang'') then (headerArgs block ''shebang'', h)
         else let firstLine = firstLineOf (content block)
              in if firstLine \<noteq> [] \<and> startsWith firstLine ''#!''
                 then (Some (Str firstLine),
                       h(a := block\<lparr>content := drop (length firstLine + 1) (content block)\<rparr>))
                 else findShebang h as)"

definition headerParts :: "path_module \<Rightarrow> heap \<Rightarrow> nat list \<Rightarrow> string \<Rightarrow> bool \<Rightarrow> string list" where
  \<comment> \<open>the header comment of lines 495 to 502\<close>
  "headerParts pm h tblocks targetPath framing =
     (let commentPrefix = getCommentPrefix targetPath;
          commentSuffix = getCommentSuffix targetPath
      in if framing
         then [commentPrefix @ '' This file is auto-generated by organjsm tangle. Do not edit directly.''
                 @ commentSuffix,
               commentPrefix @ '' Source: ''
                 @ join_comma (uniq (map (\<lambda>a. relative pm (cwd pm) (sourcePath (h a))) tblocks))
                 @ commentSuffix,
               []]
         else [])"

definition generateContent ::
  "path_module \<Rightarrow> heap \<Rightarrow> nat list \<Rightarrow> blockIndex \<Rightarrow> string \<Rightarrow> string \<times> heap" where
  \<comment> \<open>the text of a target, and the store as the function leaves it\<close>
  "generateContent pm h tblocks idx targetPath =
     (let skipComments = skipsComments h tblocks targetPath;
          (shebang, h') = findShebang h tblocks;
          framing = (\<not> skipComments \<and> getCommentPrefix targetPath \<noteq> []);
          parts = (case shebang of None \<Rightarrow> [] | Some v \<Rightarrow> [js_str v])
            @ headerParts pm h' tblocks targetPath framing
            @ concat (map (blockParts pm h' idx targetPath framing) tblocks)
      in (join_nl parts, h'))"

section \<open>Writing the targets\<close>

text \<open>
  The file system is a parameter: a state \<open>'fs\<close> and the three calls of \<^verbatim>\<open>main\<close>
  that touch it. A call that throws returns \<^term>\<open>Inl\<close> with the error.
\<close>

record 'fs fs_ops =
  existsSync :: "'fs \<Rightarrow> string \<Rightarrow> bool"
  mkdirSync :: "'fs \<Rightarrow> string \<Rightarrow> string + 'fs"
  writeFileSync :: "'fs \<Rightarrow> string \<Rightarrow> string \<Rightarrow> string + 'fs"

record 'fs run_state =
  thrown :: "string option"  \<comment> \<open>the error that left the loop, if one did\<close>
  files :: 'fs
  store :: heap
  written :: nat

fun writeTargets ::
  "'fs fs_ops \<Rightarrow> path_module \<Rightarrow> blockIndex \<Rightarrow> bool \<Rightarrow> 'fs run_state
     \<Rightarrow> (string \<times> nat list) list \<Rightarrow> 'fs run_state" where
  \<comment> \<open>the loop of lines 655 to 673 of \<^verbatim>\<open>main\<close>. Nothing in the loop catches: an
      error of \<^verbatim>\<open>mkdirSync\<close> or \<^verbatim>\<open>writeFileSync\<close> leaves the loop and
      \<^verbatim>\<open>main\<close>.\<close>
  "writeTargets ops pm idx dryRun st [] = st"
| "writeTargets ops pm idx dryRun st ((targetPath, tblocks) # rest) =
     (case generateContent pm (store st) tblocks idx targetPath of
        (body, h') \<Rightarrow>
          if dryRun then writeTargets ops pm idx dryRun (st\<lparr>store := h'\<rparr>) rest
          else let dir = dirname pm targetPath
               in (case (if \<not> existsSync ops (files st) dir then mkdirSync ops (files st) dir
                         else Inr (files st)) of
                     Inl err \<Rightarrow> st\<lparr>thrown := Some err, store := h'\<rparr>
                   | Inr fs1 \<Rightarrow>
                       (case writeFileSync ops fs1 targetPath body of
                          Inl err \<Rightarrow> st\<lparr>thrown := Some err, files := fs1, store := h'\<rparr>
                        | Inr fs2 \<Rightarrow>
                            writeTargets ops pm idx dryRun
                              (st\<lparr>files := fs2, store := h', written := written st + 1\<rparr>) rest)))"

definition exitCode :: "'fs run_state \<Rightarrow> nat" where
  \<comment> \<open>\<^verbatim>\<open>main().catch(err => { console.error(err); process.exit(1); })\<close>\<close>
  "exitCode st = (case thrown st of None \<Rightarrow> 0 | Some err \<Rightarrow> 1)"

definition tangleTargets ::
  "'fs fs_ops \<Rightarrow> path_module \<Rightarrow> bool \<Rightarrow> heap \<Rightarrow> nat list \<Rightarrow> 'fs \<Rightarrow> 'fs run_state" where
  \<comment> \<open>lines 646 to 673: the index, the targets, then the loop\<close>
  "tangleTargets ops pm dryRun h allBlocks fs =
     writeTargets ops pm (buildBlockIndex h allBlocks) dryRun
       \<lparr> thrown = None, files = fs, store = h, written = 0 \<rparr>
       (groupByTarget pm h allBlocks)"

section \<open>Properties of the expander\<close>

subsection \<open>Lines, indents and the lines of an expansion\<close>

definition nlfree :: "string \<Rightarrow> bool" where
  "nlfree s = (CHR 0x0A \<notin> set s)"

definition indented :: "string \<Rightarrow> string \<Rightarrow> bool" where
  "indented indent l = (l = [] \<or> startsWith l indent)"

lemma split_nl_not_Nil: "split_nl s \<noteq> []"
  by (induction s) (auto split: list.splits)

lemma split_nl_nlfree: "l \<in> set (split_nl s) \<Longrightarrow> nlfree l"
  by (induction s arbitrary: l) (auto simp: nlfree_def split: list.splits if_splits)

lemma split_nl_nlfree_id: "nlfree l \<Longrightarrow> split_nl l = [l]"
  by (induction l) (auto simp: nlfree_def)

lemma split_nl_append: "nlfree l \<Longrightarrow> split_nl (l @ CHR 0x0A # r) = l # split_nl r"
proof (induction l)
  case Nil
  show ?case by simp
next
  case (Cons a l)
  then have "a \<noteq> CHR 0x0A" and "nlfree l" by (auto simp: nlfree_def)
  with Cons.IH show ?case by simp
qed

lemma split_join: "ls \<noteq> [] \<Longrightarrow> \<forall>l \<in> set ls. nlfree l \<Longrightarrow> split_nl (join_nl ls) = ls"
proof (induction ls rule: join_nl.induct)
  case 1 then show ?case by simp
next
  case (2 l) then show ?case by (simp add: split_nl_nlfree_id)
next
  case (3 l v va)
  then show ?case by (simp add: split_nl_append)
qed

lemma expandLines_Cons:
  "expandLines h idx visited indent (x # xs)
     = expandLines h idx visited indent [x] @ expandLines h idx visited indent xs"
  by (simp split: option.split list.split)

lemma expandLines_append:
  "expandLines h idx visited indent (xs @ ys)
     = expandLines h idx visited indent xs @ expandLines h idx visited indent ys"
proof (induction xs)
  case Nil
  show ?case by simp
next
  case (Cons x xs)
  have "expandLines h idx visited indent ((x # xs) @ ys)
      = expandLines h idx visited indent [x] @ expandLines h idx visited indent (xs @ ys)"
    by (simp only: append_Cons expandLines_Cons[of h idx visited indent x "xs @ ys"])
  also have "\<dots> = expandLines h idx visited indent [x] @ expandLines h idx visited indent xs 
        @ expandLines h idx visited indent ys"
    by (simp only: Cons.IH)
  also have "\<dots> = expandLines h idx visited indent (x # xs) @ expandLines h idx visited indent ys"
    by (simp only: append_assoc[symmetric] expandLines_Cons[of h idx visited indent x xs, symmetric])
  finally show ?case .
qed

lemma nowebMatch_parts:
  assumes "nowebMatch line = Some (li, rn, tr)"
  shows "set li \<subseteq> set line" "set rn \<subseteq> set line" "set tr \<subseteq> set line"
proof -
  from assms have li: "li = takeWhile is_space line"
    and rn: "rn = takeWhile (\<lambda>c. c \<noteq> CHR ''>'') (drop 2 (dropWhile is_space line))"
    and tr: "tr = drop 2 (dropWhile (\<lambda>c. c \<noteq> CHR ''>'') (drop 2 (dropWhile is_space line)))"
    by (auto simp: nowebMatch_def Let_def split: if_splits)
  show "set li \<subseteq> set line" unfolding li by (auto dest: set_takeWhileD)
  have a: "set (drop 2 (dropWhile is_space line)) \<subseteq> set line"
    by (meson set_drop_subset set_dropWhileD subset_iff)
  show "set rn \<subseteq> set line" unfolding rn using a by (auto dest: set_takeWhileD)
  have "set tr \<subseteq> set (drop 2 (dropWhile is_space line))" unfolding tr
    by (meson set_drop_subset set_dropWhileD subset_iff)
  with a show "set tr \<subseteq> set line" by blast
qed

lemma startsWith_append: "startsWith l (a @ b) \<Longrightarrow> startsWith l a"
proof -
  assume "startsWith l (a @ b)"
  then have "take (length a + length b) l = a @ b" by (simp add: startsWith_def)
  then have "take (length a) (take (length a + length b) l) = take (length a) (a @ b)"
    by (simp only:)
  then show ?thesis by (simp add: startsWith_def min_def)
qed

lemma startsWith_trail: "startsWith l a \<Longrightarrow> startsWith (l @ t) a"
proof -
  assume s: "startsWith l a"
  then have "length (take (length a) l) = length a" by (simp add: startsWith_def)
  then have "length a \<le> length l" by simp
  with s show ?thesis by (simp add: startsWith_def)
qed

definition good_lines :: "string \<Rightarrow> string list \<Rightarrow> bool" where
  "good_lines indent out =
     ((\<forall>l \<in> set out. nlfree l \<and> indented indent l) \<and> out \<noteq> [] \<and> startsWith (last out) indent)"

lemma good_lines_single: "nlfree l \<Longrightarrow> startsWith l indent \<Longrightarrow> good_lines indent [l]"
  by (simp add: good_lines_def indented_def)

lemma good_lines_append2:
  assumes "good_lines indent a" and "good_lines indent b"
  shows "good_lines indent (a @ b)"
proof -
  from assms(2) have "b \<noteq> []" by (simp add: good_lines_def)
  then have "last (a @ b) = last b" by simp
  with assms show ?thesis by (simp add: good_lines_def ball_Un)
qed

lemma good_lines_append:
  "good_lines indent a \<Longrightarrow> rest = [] \<or> good_lines indent rest
    \<Longrightarrow> good_lines indent (a @ rest)"
proof (cases "rest = []")
  case True
  assume "good_lines indent a"
  with True show ?thesis by simp
next
  case False
  assume "good_lines indent a" and "rest = [] \<or> good_lines indent rest"
  with False show ?thesis by (simp add: good_lines_append2)
qed

lemma good_lines_Cons:
  "nlfree l \<Longrightarrow> startsWith l indent \<Longrightarrow> rest = [] \<or> good_lines indent rest
    \<Longrightarrow> good_lines indent (l # rest)"
proof -
  assume "nlfree l" and "startsWith l indent" and r: "rest = [] \<or> good_lines indent rest"
  then have "good_lines indent [l]" by (simp add: good_lines_single)
  then have "good_lines indent ([l] @ rest)" using r by (rule good_lines_append)
  then show ?thesis by simp
qed

lemma good_lines_sep:
  assumes "good_lines indent a" and "good_lines indent b"
  shows "good_lines indent (a @ [[]] @ b)"
proof -
  from assms(2) have "good_lines indent ([[]] @ b)"
    by (simp add: good_lines_def indented_def nlfree_def)
  with assms(1) show ?thesis by (rule good_lines_append2)
qed

lemma good_lines_weaken:
  "good_lines (a @ b) out \<Longrightarrow> good_lines a out"
  by (auto simp: good_lines_def indented_def dest: startsWith_append)

lemma good_lines_trailing:
  assumes "good_lines indent out" "nlfree t"
  shows "good_lines indent (add_trailing out t)"
proof (cases "t = []")
  case True then show ?thesis using assms by (simp add: add_trailing_def)
next
  case False
  from assms(1) have ne: "out \<noteq> []" by (simp add: good_lines_def)
  then have eq: "add_trailing out t = butlast out @ [last out @ t]"
    using False by (simp add: add_trailing_def)
  have "\<forall>l \<in> set (butlast out). nlfree l \<and> indented indent l"
    using assms(1) by (auto simp: good_lines_def dest: in_set_butlastD)
  moreover have "nlfree (last out @ t)"
    using assms ne by (auto simp: good_lines_def nlfree_def)
  moreover have "startsWith (last out @ t) indent"
    using assms(1) by (auto simp: good_lines_def intro: startsWith_trail)
  ultimately show ?thesis unfolding eq by (auto simp: good_lines_def indented_def)
qed

lemma expand_good:
  "nlfree indent \<Longrightarrow> good_lines indent (split_nl (expandNoweb h idx visited indent str))"
  "nlfree indent \<Longrightarrow> \<forall>l \<in> set lines. nlfree l \<Longrightarrow>
     lines = [] \<or> good_lines indent (expandLines h idx visited indent lines)"
  "nlfree indent \<Longrightarrow> bs = [] \<or> good_lines indent (expandBlocks h idx visited indent bs)"
proof (induction h idx visited indent str and h idx visited indent lines and h idx visited indent bs
       rule: expandNoweb_expandLines_expandBlocks.induct)
  case (1 h idx visited indent str)
  have g: "good_lines indent (expandLines h idx visited indent (split_nl str))"
    using 1 by (simp add: split_nl_not_Nil split_nl_nlfree)
  then have "split_nl (join_nl (expandLines h idx visited indent (split_nl str)))
      = expandLines h idx visited indent (split_nl str)"
    by (intro split_join) (simp_all add: good_lines_def)
  with g show ?case by simp
next
  case (2 h idx visited indent)
  then show ?case by simp
next
  case (3 h idx visited indent line lines)
  have nl: "nlfree line" and nls: "\<forall>l \<in> set lines. nlfree l" using 3(8) by auto
  have ni: "nlfree indent" by fact
  let ?rest = "expandLines h idx visited indent lines"
  have tl: "?rest = [] \<or> good_lines indent ?rest"
    if "lines = [] \<or> good_lines indent ?rest" using that by auto
  show ?case
  proof (cases "nowebMatch line")
    case None
    have "good_lines indent ((indent @ line) # ?rest)"
      using tl[OF 3(1)[OF None ni nls]] ni nl
      by (intro good_lines_Cons) (auto simp: nlfree_def startsWith_def)
    then show ?thesis using None by simp
  next
    case (Some m)
    then obtain li rn tr where m: "nowebMatch line = Some (li, rn, tr)" by (cases m) auto
    note parts = nowebMatch_parts[OF m]
    have nli: "nlfree li" and nrn: "nlfree rn" and ntr: "nlfree tr"
      using parts nl by (auto simp: nlfree_def)
    have ntot: "nlfree (indent @ li)" using ni nli by (simp add: nlfree_def)
    show ?thesis
    proof (cases "rn \<in> visited")
      case True
      have "good_lines indent ((indent @ li @ ''/* ERROR: Circular reference to '' @ rn @ '' */'' @ tr)
              # ?rest)"
        using tl[OF 3(2)[OF m refl refl True ni nls]] ni nli nrn ntr
        by (intro good_lines_Cons) (auto simp: nlfree_def startsWith_def)
      then show ?thesis using m True by simp
    next
      case False
      have lit: "good_lines indent ((indent @ li @ ''<<'' @ rn @ ''>>'' @ tr) # ?rest)"
        if "lines = [] \<or> good_lines indent ?rest"
        using tl[OF that] ni nli nrn ntr
        by (intro good_lines_Cons) (auto simp: nlfree_def startsWith_def)
      show ?thesis
      proof (cases "map_of idx (Str rn)")
        case None
        show ?thesis using lit[OF 3(3)[OF m refl refl False None ni nls]] m False None by simp
      next
        case (Some bs)
        show ?thesis
        proof (cases bs)
          case Nil
          show ?thesis using lit[OF 3(4)[OF m refl refl False Some Nil ni nls]] m False Some Nil
            by simp
        next
          case (Cons a as)
          have "good_lines (indent @ li) (expandBlocks h idx (insert rn visited) (indent @ li) (a # as))"
            using 3(5)[OF m refl refl False Some Cons ntot] by simp
          then have "good_lines indent (add_trailing
              (expandBlocks h idx (insert rn visited) (indent @ li) (a # as)) tr)"
            using ntr by (simp add: good_lines_trailing[OF good_lines_weaken])
          then have "good_lines indent (add_trailing
              (expandBlocks h idx (insert rn visited) (indent @ li) (a # as)) tr
              @ ?rest)"
            using tl[OF 3(6)[OF m refl refl False Some Cons ni nls]]
            by (intro good_lines_append)
          then show ?thesis using m False Some Cons by simp
        qed
      qed
    qed
  qed
next
  case (4 h idx visited indent)
  then show ?case by simp
next
  case (5 h idx visited indent a)
  then show ?case by simp
next
  case (6 h idx visited indent a b as)
  have "good_lines indent (split_nl (expandNoweb h idx visited indent (content (h a))))"
    using 6 by simp
  moreover have "good_lines indent (expandBlocks h idx visited indent (b # as))"
    using 6 by simp
  ultimately have "good_lines indent (split_nl (expandNoweb h idx visited indent (content (h a)))
      @ [[]] @ expandBlocks h idx visited indent (b # as))"
    by (rule good_lines_sep)
  then show ?case by (simp only: expandBlocks.simps(3) simp_thms)
qed

subsection \<open>Two small documents\<close>

text \<open>
  \<open>greetHeap\<close> holds two blocks that share the noweb-ref \<^verbatim>\<open>greet\<close>, with the bodies
  \<^verbatim>\<open>hi\<close> and \<^verbatim>\<open>bye\<close>. \<open>cycleHeap\<close> holds a block \<^verbatim>\<open>a\<close> that refers to
  \<^verbatim>\<open>b\<close> and a block \<^verbatim>\<open>b\<close> that refers back to \<^verbatim>\<open>a\<close>.
\<close>

definition exBlock :: "string option \<Rightarrow> hargs \<Rightarrow> string \<Rightarrow> SourceBlock" where
  "exBlock n args c =
     \<lparr> name = n, language = ''sh'', content = c, headerArgs = args,
       startLine = 0, contentStartLine = 1, endLine = 2, sourcePath = ''doc.org'' \<rparr>"

definition greetHeap :: heap where
  "greetHeap = (\<lambda>a. if a = 0 then exBlock None [''noweb-ref'' \<mapsto> Str ''greet'', ''tangle'' \<mapsto> Str ''no''] ''hi''
                    else exBlock None [''noweb-ref'' \<mapsto> Str ''greet'', ''tangle'' \<mapsto> Str ''no''] ''bye'')"

definition cycleHeap :: heap where
  "cycleHeap = (\<lambda>a. if a = 0 then exBlock (Some ''a'') Map.empty ''<<b>>''
                    else exBlock (Some ''b'') Map.empty ''  <<a>> // back'')"

lemma greet_index: "buildBlockIndex greetHeap [0, 1] = [(Str ''greet'', [0, 1])]"
  by (simp add: buildBlockIndex_def indexBlock_def index_push_def greetHeap_def exBlock_def js_or_def)

lemma cycle_index: "buildBlockIndex cycleHeap [0, 1] = [(Str ''a'', [0]), (Str ''b'', [1])]"
  by (simp add: buildBlockIndex_def indexBlock_def index_push_def cycleHeap_def exBlock_def js_or_def)

lemma greet_expand:
  "expandLines greetHeap [(Str ''greet'', [0, 1])] {} [] [''    <<greet>>'']
     = [''    hi'', [], ''    bye'']"
  by code_simp

lemma cycle_expand:
  "expandNoweb cycleHeap [(Str ''a'', [0]), (Str ''b'', [1])] {} [] ''<<a>>''
     = ''  /* ERROR: Circular reference to a */ // back''"
  by code_simp

subsection \<open>Indentation\<close>

text \<open>
  C2, as amended. For a reference line with leading indent \<open>leadingIndent\<close>, expanded at
  the outer indent \<open>indent\<close>, every line that the expander puts in its place, the lines
  of nested expansions among them, is either empty (the separator that the expander puts
  between two blocks of one name is the empty string, with no indent) or begins with
  \<open>indent @ leadingIndent\<close>: the indents of nested reference sites add up. The line and
  the outer indent hold no newline, as in every call that the tangler makes.
\<close>

theorem C2_expansion_indented:
  assumes m: "nowebMatch line = Some (leadingIndent, refName, trailing)"
    and ni: "CHR 0x0A \<notin> set indent" and nl: "CHR 0x0A \<notin> set line"
  shows "\<forall>l \<in> set (expandLines h idx visited indent [line]).
           l = [] \<or> startsWith l (indent @ leadingIndent)"
proof -
  note parts = nowebMatch_parts[OF m]
  have ntot: "nlfree (indent @ leadingIndent)" and ntr: "nlfree trailing"
    using parts ni nl by (auto simp: nlfree_def)
  show ?thesis
  proof (cases "refName \<in> visited")
    case True
    then show ?thesis using m by (simp add: startsWith_def)
  next
    case False
    show ?thesis
    proof (cases "map_of idx (Str refName)")
      case None
      then show ?thesis using m False by (simp add: startsWith_def)
    next
      case (Some bs)
      show ?thesis
      proof (cases bs)
        case Nil
        then show ?thesis using m False Some by (simp add: startsWith_def)
      next
        case (Cons a as)
        have "good_lines (indent @ leadingIndent)
            (expandBlocks h idx (insert refName visited) (indent @ leadingIndent) (a # as))"
          using expand_good(3)[OF ntot, of "a # as" h idx "insert refName visited"] by simp
        then have "good_lines (indent @ leadingIndent) (add_trailing
            (expandBlocks h idx (insert refName visited) (indent @ leadingIndent) (a # as)) trailing)"
          using ntr by (rule good_lines_trailing)
        then show ?thesis using m False Some Cons
          by (simp add: good_lines_def indented_def del: expandBlocks.simps)
      qed
    qed
  qed
qed

text \<open>The theorem at a reference indented by four spaces under an outer indent of two.\<close>

theorem C2_expansion_indented_witness:
  "nowebMatch ''    <<greet>> // x'' = Some (''    '', ''greet'', '' // x'')
   \<and> set (expandLines greetHeap [(Str ''greet'', [0, 1])] {} ''  '' [''    <<greet>> // x''])
       = {''      hi'', [], ''      bye // x''}
   \<and> startsWith ''      hi'' (''  '' @ ''    '') \<and> startsWith ''      bye // x'' (''  '' @ ''    '')"
proof -
  have m: "nowebMatch ''    <<greet>> // x'' = Some (''    '', ''greet'', '' // x'')"
    by code_simp
  have e: "expandLines greetHeap [(Str ''greet'', [0, 1])] {} ''  '' [''    <<greet>> // x'']
      = [''      hi'', [], ''      bye // x'']"
    by code_simp
  have "\<forall>l \<in> set (expandLines greetHeap [(Str ''greet'', [0, 1])] {} ''  '' [''    <<greet>> // x'']).
           l = [] \<or> startsWith l (''  '' @ ''    '')"
    by (rule C2_expansion_indented[OF m]) simp_all
  with m e show ?thesis by simp
qed

text \<open>
  C2 as the claim states it fails: with two blocks under one name, the separator line
  between them is empty and does not begin with the four spaces of the reference.
\<close>

theorem C2_separator_counterexample:
  "\<not> (\<forall>l \<in> set (expandLines greetHeap (buildBlockIndex greetHeap [0, 1]) {} [] [''    <<greet>>'']).
         startsWith l ''    '')"
  unfolding greet_index greet_expand by (simp add: startsWith_def)

subsection \<open>Cycles\<close>

text \<open>
  C3. Expansion is a total function: its termination is proved above, for every index,
  by the number of index keys not yet on the stack. A reference line whose name is in
  \<open>visited\<close> yields exactly one line, made of the total indent, the text
  \<^verbatim>\<open>/* ERROR: Circular reference to NAME */\<close> and the trailing text of the line, and
  the lines before and after it are expanded as they would be without it.
\<close>

theorem C3_circular_reference_marker:
  assumes "nowebMatch line = Some (leadingIndent, refName, trailing)"
    and "refName \<in> visited"
  shows "expandLines h idx visited indent (ls1 @ line # ls2)
     = expandLines h idx visited indent ls1
       @ [indent @ leadingIndent @ ''/* ERROR: Circular reference to '' @ refName @ '' */'' @ trailing]
       @ expandLines h idx visited indent ls2"
  using assms by (simp add: expandLines_append)

text \<open>The theorem on the second block of \<open>cycleHeap\<close>, with both names on the stack.\<close>

theorem C3_circular_reference_marker_witness:
  "nowebMatch ''  <<a>> // back'' = Some (''  '', ''a'', '' // back'')
   \<and> ''a'' \<in> {''a'', ''b''}
   \<and> expandLines cycleHeap (buildBlockIndex cycleHeap [0, 1]) {''a'', ''b''} [] ([''x''] @ ''  <<a>> // back'' # [''y''])
       = [''x'', ''  /* ERROR: Circular reference to a */ // back'', ''y'']"
proof -
  have m: "nowebMatch ''  <<a>> // back'' = Some (''  '', ''a'', '' // back'')"
    by code_simp
  have n: "nowebMatch ''x'' = None" "nowebMatch ''y'' = None" by code_simp+
  show ?thesis
    using C3_circular_reference_marker[OF m, of "{''a'', ''b''}" cycleHeap
        "buildBlockIndex cycleHeap [0, 1]" "[]" "[''x'']" "[''y'']"] m n
    by simp
qed

subsection \<open>Unresolved references\<close>

text \<open>
  C9. A reference line whose name has no entry in the index, or an entry with no block,
  yields the literal \<^verbatim>\<open><<NAME>>\<close> after the total indent and before the trailing
  text, and the lines around it are expanded as usual. The stack holds only names that
  the index resolves: it is empty at the start, and a name is put on it only once its
  blocks are found.
\<close>

theorem C9_unresolved_reference_literal:
  assumes "nowebMatch line = Some (leadingIndent, refName, trailing)"
    and "map_of idx (Str refName) = None \<or> map_of idx (Str refName) = Some []"
    and "\<forall>n \<in> visited. \<exists>a as. map_of idx (Str n) = Some (a # as)"
  shows "expandLines h idx visited indent (ls1 @ line # ls2)
     = expandLines h idx visited indent ls1
       @ [indent @ leadingIndent @ ''<<'' @ refName @ ''>>'' @ trailing]
       @ expandLines h idx visited indent ls2"
proof -
  from assms(2,3) have "refName \<notin> visited" by force
  with assms(1,2) show ?thesis by (auto simp: expandLines_append)
qed

text \<open>The theorem on a name that the index of \<open>cycleHeap\<close> does not hold.\<close>

theorem C9_unresolved_reference_literal_witness:
  "nowebMatch ''  <<missing>>;'' = Some (''  '', ''missing'', '';'')
   \<and> map_of (buildBlockIndex cycleHeap [0, 1]) (Str ''missing'') = None
   \<and> expandLines cycleHeap (buildBlockIndex cycleHeap [0, 1]) {''a''} ''    '' ([] @ ''  <<missing>>;'' # [])
       = [''      <<missing>>;'']"
proof -
  have m: "nowebMatch ''  <<missing>>;'' = Some (''  '', ''missing'', '';'')"
    by code_simp
  have u: "map_of (buildBlockIndex cycleHeap [0, 1]) (Str ''missing'') = None"
    unfolding cycle_index by simp
  have v: "\<forall>n \<in> {''a''}. \<exists>a as. map_of (buildBlockIndex cycleHeap [0, 1]) (Str n) = Some (a # as)"
    unfolding cycle_index by simp
  show ?thesis
    using C9_unresolved_reference_literal[OF m disjI1[OF u] v, of cycleHeap "''    ''" "[]" "[]"] m u
    by simp
qed

section \<open>Properties of the header parser\<close>

lemma bindFlags_snoc:
  "bindFlags a (fs @ [(k, w)]) = set_arg (bindFlags a fs) k (Bool (w = ''yes'' \<or> w = ''t''))"
  by (simp add: bindFlags_def)

lemma bindFlags_last:
  "map_of (rev fs) k = Some w \<Longrightarrow> k \<noteq> ''__proto__''
     \<Longrightarrow> bindFlags a fs k = Some (Bool (w = ''yes'' \<or> w = ''t''))"
proof (induction fs rule: rev_induct)
  case Nil
  then show ?case by simp
next
  case (snoc x fs)
  obtain k' w' where x: "x = (k', w')" by (cases x)
  show ?case
  proof (cases "k' = k")
    case True
    with snoc.prems x show ?thesis by (simp add: bindFlags_snoc set_arg_def)
  next
    case False
    with snoc x show ?thesis by (simp add: bindFlags_snoc set_arg_def)
  qed
qed

lemma keychar_not_space: "is_keychar c \<Longrightarrow> \<not> is_space c"
  by (auto simp: is_keychar_def is_word_def is_space_def)

lemma keychar_not_colon: "is_keychar c \<Longrightarrow> c \<noteq> CHR '':''"
  by (auto simp: is_keychar_def is_word_def)

lemma scanArgs_no_colon: "CHR '':'' \<notin> set s \<Longrightarrow> scanArgs s = []"
  by (induction s) (auto simp: argMatchAt_def)

lemma scanFlags_no_colon: "CHR '':'' \<notin> set s \<Longrightarrow> scanFlags s = []"
  by (induction s) (auto simp: flagMatchAt_def)

lemma takeWhile_key:
  "\<forall>c \<in> set key. is_keychar c \<Longrightarrow> takeWhile is_keychar (key @ CHR '' '' # r) = key"
  "\<forall>c \<in> set key. is_keychar c \<Longrightarrow> dropWhile is_keychar (key @ CHR '' '' # r) = CHR '' '' # r"
  by (simp_all add: takeWhile_append2 dropWhile_append2 is_keychar_def is_word_def)



lemma space_facts: "\<not> is_keychar CHR '' ''" "is_space CHR '' ''"
  by (simp_all add: is_keychar_def is_word_def is_space_def)

lemma argMatchAt_key:
  assumes "key \<noteq> []" and "\<forall>c \<in> set key. is_keychar c" and "v \<noteq> []" and "\<forall>c \<in> set v. is_valchar c"
  shows "argMatchAt (CHR '':'' # key @ CHR '' '' # v) = Some (key, v, [])"
proof -
  obtain c r where v: "v = c # r" using assms(3) by (cases v) auto
  with assms(4) have "\<not> is_space c" by (simp add: is_valchar_def)
  then have d: "dropWhile is_space (CHR '' '' # v) = v" "takeWhile is_space (CHR '' '' # v) = '' ''"
    using v by (simp_all add: space_facts)
  have t: "takeWhile is_valchar v = v" "dropWhile is_valchar v = []"
    using assms(4) by simp_all
  show ?thesis
    using assms(1,3) unfolding argMatchAt_def list.case takeWhile_key[OF assms(2)] d t Let_def
    by simp
qed

lemma flagWord_yes: "flagWord ''yes'' = Some (''yes'', [])"
  by code_simp

lemma lower_char_quote: "lower_char (CHR 0x22) = CHR 0x22"
  by code_simp

lemma flagWord_quoted: "flagWord (CHR 0x22 # r) = None"
  by (simp add: flagWord_def startsWith_ci_def toLowerCase_def lower_char_quote)

lemma flagMatchAt_key:
  assumes "key \<noteq> []" and "\<forall>c \<in> set key. is_keychar c" and "\<not> is_space (hd v)"
  shows "flagMatchAt (CHR '':'' # key @ CHR '' '' # v)
     = (case flagWord v of None \<Rightarrow> None | Some (w, r) \<Rightarrow> Some (key, w, r))"
proof -
  have d: "takeWhile is_space (CHR '' '' # v) = '' ''" "dropWhile is_space (CHR '' '' # v) = v"
    using assms(3) by (cases v; simp add: space_facts)+
  show ?thesis
    using assms(1) unfolding flagMatchAt_def list.case takeWhile_key[OF assms(2)] d Let_def
    by simp
qed

text \<open>
  C7, as amended. Whenever the pass over the boolean flags matches a key, the last such
  match decides: the key is bound to a boolean (true for \<^verbatim>\<open>yes\<close> and \<^verbatim>\<open>t\<close>, false
  for \<^verbatim>\<open>no\<close> and \<^verbatim>\<open>nil\<close>), whatever the pass over the values had bound. The flag
  pattern wants the word right after the white space, so it matches \<^verbatim>\<open>:key yes\<close>,
  which binds the key to true, and it does not match the quoted \<^verbatim>\<open>:key "yes"\<close>, which
  binds the key to the string \<^verbatim>\<open>yes\<close>: the parser tells the two apart.
\<close>

theorem C7_flag_wins:
  "(\<forall>w. map_of (rev (scanFlags argsStr)) key = Some w \<and> key \<noteq> ''__proto__''
        \<longrightarrow> parseArgsStr argsStr key = Some (Bool (w = ''yes'' \<or> w = ''t'')))
   \<and> (key \<noteq> [] \<and> (\<forall>c \<in> set key. is_keychar c) \<and> key \<noteq> ''__proto__''
        \<longrightarrow> parseArgsStr ('':'' @ key @ '' yes'') key = Some (Bool True)
          \<and> parseArgsStr ('':'' @ key @ '' '' @ [CHR 0x22] @ ''yes'' @ [CHR 0x22]) key = Some (Str ''yes''))"
proof (intro conjI allI impI)
  fix w
  assume "map_of (rev (scanFlags argsStr)) key = Some w \<and> key \<noteq> ''__proto__''"
  then show "parseArgsStr argsStr key = Some (Bool (w = ''yes'' \<or> w = ''t''))"
    by (simp add: parseArgsStr_def bindFlags_last)
next
  assume k: "key \<noteq> [] \<and> (\<forall>c \<in> set key. is_keychar c) \<and> key \<noteq> ''__proto__''"
  have a: "argMatchAt (CHR '':'' # key @ CHR '' '' # ''yes'') = Some (key, ''yes'', [])"
    using k by (intro argMatchAt_key) (simp_all add: is_valchar_def is_space_def)
  have f: "flagMatchAt (CHR '':'' # key @ CHR '' '' # ''yes'') = Some (key, ''yes'', [])"
    using k by (simp add: flagMatchAt_key flagWord_yes is_space_def)
  show "parseArgsStr ('':'' @ key @ '' yes'') key = Some (Bool True)"
    using k a f by (simp add: parseArgsStr_def bindFlags_def bindArgs_def set_arg_def)
next
  assume k: "key \<noteq> [] \<and> (\<forall>c \<in> set key. is_keychar c) \<and> key \<noteq> ''__proto__''"
  let ?q = "[CHR 0x22] @ ''yes'' @ [CHR 0x22]"
  have a: "argMatchAt (CHR '':'' # key @ CHR '' '' # ?q) = Some (key, ?q, [])"
    using k by (intro argMatchAt_key) (simp_all add: is_valchar_def is_space_def)
  have f: "flagMatchAt (CHR '':'' # key @ CHR '' '' # ?q) = None"
    using k by (simp add: flagMatchAt_key flagWord_quoted is_space_def)
  have "CHR '':'' \<notin> set (key @ CHR '' '' # ?q)"
    using k by (auto dest: keychar_not_colon)
  then have n: "scanFlags (key @ CHR '' '' # ?q) = []" by (rule scanFlags_no_colon)
  have u: "unquote ?q = ''yes''" by (simp add: unquote_def startsWith_def endsWith_def)
  show "parseArgsStr ('':'' @ key @ '' '' @ [CHR 0x22] @ ''yes'' @ [CHR 0x22]) key = Some (Str ''yes'')"
    using k a f n u by (simp add: parseArgsStr_def bindFlags_def bindArgs_def set_arg_def)
qed

text \<open>The theorem on a key that is flagged twice, and on the key \<^verbatim>\<open>tangle\<close>.\<close>

theorem C7_flag_wins_witness:
  "map_of (rev (scanFlags '':noweb yes :noweb NO'')) ''noweb'' = Some ''no''
   \<and> parseArgsStr '':noweb yes :noweb NO'' ''noweb'' = Some (Bool False)
   \<and> parseArgsStr ('':'' @ ''tangle'' @ '' yes'') ''tangle'' = Some (Bool True)
   \<and> parseArgsStr ('':'' @ ''tangle'' @ '' '' @ [CHR 0x22] @ ''yes'' @ [CHR 0x22]) ''tangle'' = Some (Str ''yes'')"
proof -
  have m: "map_of (rev (scanFlags '':noweb yes :noweb NO'')) ''noweb'' = Some ''no''"
    by code_simp
  have k: "''tangle'' \<noteq> [] \<and> (\<forall>c \<in> set ''tangle''. is_keychar c) \<and> ''tangle'' \<noteq> ''__proto__''"
    by (simp add: is_keychar_def is_word_def)
  from C7_flag_wins[of "'':noweb yes :noweb NO''" "''noweb''"] m
  have "parseArgsStr '':noweb yes :noweb NO'' ''noweb'' = Some (Bool False)" by simp
  moreover from C7_flag_wins[of "[]" "''tangle''"] k
  have "parseArgsStr ('':'' @ ''tangle'' @ '' yes'') ''tangle'' = Some (Bool True)
          \<and> parseArgsStr ('':'' @ ''tangle'' @ '' '' @ [CHR 0x22] @ ''yes'' @ [CHR 0x22]) ''tangle'' = Some (Str ''yes'')"
    by blast
  ultimately show ?thesis using m by simp
qed

text \<open>
  C7 as the claim states it fails: \<^verbatim>\<open>:key "yes"\<close> binds the key to the string
  \<^verbatim>\<open>yes\<close>, not to the boolean that \<^verbatim>\<open>:key yes\<close> binds it to.
\<close>

theorem C7_quoted_yes_counterexample:
  "snd (parseHeaderArgs (''#+begin_src sh :key '' @ [CHR 0x22] @ ''yes'' @ [CHR 0x22])) ''key'' = Some (Str ''yes'')
   \<and> snd (parseHeaderArgs ''#+begin_src sh :key yes'') ''key'' = Some (Bool True)
   \<and> snd (parseHeaderArgs (''#+begin_src sh :key '' @ [CHR 0x22] @ ''yes'' @ [CHR 0x22])) ''key''
       \<noteq> snd (parseHeaderArgs ''#+begin_src sh :key yes'') ''key''"
proof -
  have a: "snd (parseHeaderArgs (''#+begin_src sh :key '' @ [CHR 0x22] @ ''yes'' @ [CHR 0x22])) ''key'' = Some (Str ''yes'')"
    by code_simp
  have b: "snd (parseHeaderArgs ''#+begin_src sh :key yes'') ''key'' = Some (Bool True)"
    by code_simp
  show ?thesis unfolding a b by simp
qed

section \<open>Properties of the scanner's header arguments and of the targets\<close>

lemma index_push_mem:
  "(p, as) \<in> set (index_push t k a) \<Longrightarrow> b \<in> set as
     \<Longrightarrow> (b = a \<and> p = k) \<or> (\<exists>as'. (p, as') \<in> set t \<and> b \<in> set as')"
  by (auto simp: index_push_def split: if_splits)

lemma groupByTarget_mem_aux:
  "(p, as) \<in> set (foldl (\<lambda>targets a. case targetOf pm (h a) of
                            None \<Rightarrow> targets
                          | Some targetPath \<Rightarrow> index_push targets targetPath a) t bs)
   \<Longrightarrow> b \<in> set as
   \<Longrightarrow> targetOf pm (h b) = Some p \<or> (\<exists>as'. (p, as') \<in> set t \<and> b \<in> set as')"
proof (induction bs arbitrary: t)
  case Nil
  then show ?case by auto
next
  case (Cons x bs)
  show ?case
  proof (cases "targetOf pm (h x)")
    case None
    with Cons show ?thesis by simp
  next
    case (Some q)
    with Cons.prems have "(p, as) \<in> set (foldl (\<lambda>targets a. case targetOf pm (h a) of
                            None \<Rightarrow> targets
                          | Some targetPath \<Rightarrow> index_push targets targetPath a) (index_push t q x) bs)"
      by simp
    from Cons.IH[OF this Cons.prems(2)]
    show ?thesis
    proof
      assume "targetOf pm (h b) = Some p" then show ?thesis by simp
    next
      assume "\<exists>as'. (p, as') \<in> set (index_push t q x) \<and> b \<in> set as'"
      then obtain as' where "(p, as') \<in> set (index_push t q x)" "b \<in> set as'" by blast
      from index_push_mem[OF this] Some show ?thesis by auto
    qed
  qed
qed

lemma groupByTarget_mem:
  "(p, as) \<in> set (groupByTarget pm h allBlocks) \<Longrightarrow> b \<in> set as \<Longrightarrow> targetOf pm (h b) = Some p"
  unfolding groupByTarget_def using groupByTarget_mem_aux[of p as pm h "[]" allBlocks b] by simp

lemma mergeArgs_noweb_tangle:
  "truthy (js_or (args ''noweb-ref'') (args ''nowebRef'')) \<Longrightarrow> args ''tangle'' = None
     \<Longrightarrow> mergeArgs fp lang args ''tangle'' = Some (Str ''no'')"
  by (simp add: mergeArgs_def Let_def)

lemma mergeArgs_at:
  "mergeArgs fp lang args k =
     (if truthy (js_or (args ''noweb-ref'') (args ''nowebRef'')) \<and> args ''tangle'' = None \<and> k = ''tangle''
      then Some (Str ''no'')
      else case args k of
             Some v \<Rightarrow> Some v
           | None \<Rightarrow> (case propsOf fp lang k of Some v \<Rightarrow> Some v | None \<Rightarrow> propsOf fp ''*'' k))"
  by (auto simp: mergeArgs_def Let_def map_add_def split: option.splits)

lemma beginBlock_headerArgs:
  "headerArgs (beginBlock fp path pending i line)
     = mergeArgs fp (fst (parseHeaderArgs (trim line))) (snd (parseHeaderArgs (trim line)))"
  by (simp add: beginBlock_def split: prod.split)

lemma beginBlock_language:
  "language (beginBlock fp path pending i line) = fst (parseHeaderArgs (trim line))"
  by (simp add: beginBlock_def split: prod.split)

subsection \<open>Every block keeps what its opening line gave it\<close>

text \<open>
  The scanner sets the header arguments, the language and the line number of a block
  when the \<^verbatim>\<open>#+begin_src\<close> line opens it, and no later line changes them: a block of
  the result has the arguments and the language that the line at its
  \<^verbatim>\<open>startLine\<close> gave it.
\<close>

definition openedBy :: "fileProperties \<Rightarrow> string \<Rightarrow> (nat \<times> string) list \<Rightarrow> SourceBlock \<Rightarrow> bool" where
  \<comment> \<open>the block keeps the header arguments and the line number that one of the lines,
      as a \<^verbatim>\<open>#+begin_src\<close> line, gave it\<close>
  "openedBy fp path ils b =
     (\<exists>i line pending. (i, line) \<in> set ils \<and> startLine b = i
        \<and> language b = language (beginBlock fp path pending i line)
        \<and> headerArgs b = headerArgs (beginBlock fp path pending i line))"

lemma openedBy_mono: "openedBy fp path ils b \<Longrightarrow> set ils \<subseteq> set ils' \<Longrightarrow> openedBy fp path ils' b"
  unfolding openedBy_def by blast

lemma openedBy_update:
  "openedBy fp path ils b \<Longrightarrow> openedBy fp path ils (b\<lparr>content := c\<rparr>)"
  "openedBy fp path ils b \<Longrightarrow> openedBy fp path ils (b\<lparr>endLine := e, content := c\<rparr>)"
  unfolding openedBy_def by simp_all

lemma openedBy_begin: "openedBy fp path (pre @ [(i, line)]) (beginBlock fp path pending i line)"
proof -
  have "startLine (beginBlock fp path pending i line) = i"
    by (simp add: beginBlock_def split: prod.split)
  then show ?thesis unfolding openedBy_def by auto
qed

definition scanInv :: "fileProperties \<Rightarrow> string \<Rightarrow> (nat \<times> string) list \<Rightarrow> scan_state \<Rightarrow> bool" where
  "scanInv fp path ils s =
     ((\<forall>b \<in> set (blocks s). openedBy fp path ils b)
      \<and> (\<forall>b. currentBlock s = Some b \<longrightarrow> openedBy fp path ils b))"

lemma scanInv_step:
  assumes "scanInv fp path pre s"
  shows "scanInv fp path (pre @ [il]) (scanLine fp path s il)"
proof -
  obtain i line where il: "il = (i, line)" by (cases il)
  have mono: "openedBy fp path pre b \<Longrightarrow> openedBy fp path (pre @ [il]) b" for b
    by (rule openedBy_mono) auto
  from assms have old: "\<forall>b \<in> set (blocks s). openedBy fp path (pre @ [il]) b"
    "\<forall>b. currentBlock s = Some b \<longrightarrow> openedBy fp path (pre @ [il]) b"
    by (auto simp: scanInv_def intro: mono)
  have new: "openedBy fp path (pre @ [il]) (beginBlock fp path (currentName s) i line)"
    unfolding il by (rule openedBy_begin)
  show ?thesis
    using old new unfolding scanInv_def scanLine_def il
    by (auto simp: Let_def openedBy_update split: option.splits)
qed

lemma scanInv_lines:
  "scanInv fp path pre s \<Longrightarrow> scanInv fp path (pre @ ils) (scanLines fp path s ils)"
proof (induction ils arbitrary: pre s)
  case Nil
  then show ?case by (simp add: scanLines_def)
next
  case (Cons il ils)
  from scanInv_step[OF Cons.prems] have "scanInv fp path (pre @ [il]) (scanLine fp path s il)" .
  from Cons.IH[OF this] show ?case by (simp add: scanLines_def)
qed

lemma extractBlocks_opened:
  assumes "b \<in> set (extractBlocks doc path fp)"
  shows "startLine b < length (split_nl (normalize_eol doc))
     \<and> (\<exists>pending. language b
          = language (beginBlock fp path pending (startLine b)
                          (split_nl (normalize_eol doc) ! startLine b))
         \<and> headerArgs b
          = headerArgs (beginBlock fp path pending (startLine b)
                          (split_nl (normalize_eol doc) ! startLine b)))"
proof -
  let ?lines = "split_nl (normalize_eol doc)"
  let ?ils = "zip [0 ..< length ?lines] ?lines"
  have "scanInv fp path [] scan_init" by (simp add: scanInv_def scan_init_def)
  from scanInv_lines[OF this, of ?ils]
  have "scanInv fp path ?ils (scanLines fp path scan_init ?ils)" by simp
  with assms have "openedBy fp path ?ils b"
    by (simp add: scanInv_def extractBlocks_def Let_def)
  then obtain i line pending where m: "(i, line) \<in> set ?ils" and s: "startLine b = i"
    and g: "language b = language (beginBlock fp path pending i line)"
      "headerArgs b = headerArgs (beginBlock fp path pending i line)"
    unfolding openedBy_def by blast
  from m have "i < length ?lines \<and> line = ?lines ! i"
    by (auto simp: set_zip)
  with s g show ?thesis by auto
qed

subsection \<open>Example paths, properties and documents\<close>

definition exPaths :: path_module where
  "exPaths = \<lparr> dirname = (\<lambda>p. ''/w''), resolve = (\<lambda>d p. d @ ''/'' @ p),
               relative = (\<lambda>c p. p), cwd = ''/w'' \<rparr>"

definition tangleProps :: fileProperties where
  \<comment> \<open>the properties of a document whose only property line is
      \<^verbatim>\<open>#+PROPERTY: header-args :tangle o.ts\<close>\<close>
  "tangleProps = [''*'' \<mapsto> [''tangle'' \<mapsto> Str ''o.ts'']]"

definition tsProps :: fileProperties where
  \<comment> \<open>the properties of a document whose only property line is
      \<^verbatim>\<open>#+PROPERTY: header-args:ts :tangle a.ts\<close>\<close>
  "tsProps = [''ts'' \<mapsto> [''tangle'' \<mapsto> Str ''a.ts'']]"

definition libDoc :: string where
  "libDoc = join_nl [''#+begin_src c :noweb-ref lib'', ''x'', ''#+end_src'']"

lemma lib_blocks:
  "map (\<lambda>b. (startLine b, content b)) (extractBlocks libDoc ''/w/d.org'' tangleProps) = [(0, ''x'')]"
  by code_simp

lemma lib_line: "split_nl (normalize_eol libDoc) ! 0 = ''#+begin_src c :noweb-ref lib''"
  by code_simp

definition noDoc :: string where
  "noDoc = join_nl [''#+begin_src c :noweb-ref no'', ''x'', ''#+end_src'']"

definition tsDoc :: string where
  "tsDoc = join_nl [''#+begin_src ts :tangle b.ts'', ''#+end_src'',
                    ''#+begin_src ts'', ''#+end_src'',
                    ''#+begin_src TS'', ''#+end_src'']"

lemma ts_blocks:
  "map (\<lambda>b. (startLine b, language b, headerArgs b ''tangle'')) (extractBlocks tsDoc ''/w/d.org'' tsProps)
     = [(0, ''ts'', Some (Str ''b.ts'')), (2, ''ts'', Some (Str ''a.ts'')), (4, ''TS'', None)]"
  by code_simp

lemma ts_lines:
  "split_nl (normalize_eol tsDoc) ! 0 = ''#+begin_src ts :tangle b.ts''"
  "split_nl (normalize_eol tsDoc) ! 2 = ''#+begin_src ts''"
  "split_nl (normalize_eol tsDoc) ! 4 = ''#+begin_src TS''"
  by code_simp+

subsection \<open>Blocks with a noweb-ref\<close>

text \<open>
  C1, as amended. Take a block of a document, and the arguments of its own that its
  \<^verbatim>\<open>#+begin_src\<close> line holds. If they bind \<^verbatim>\<open>noweb-ref\<close> or \<^verbatim>\<open>nowebRef\<close> to a
  truthy value (a string that is not empty, or true) and do not bind \<^verbatim>\<open>tangle\<close>,
  the block is in no target, whatever the properties of the document and of the
  language supply: the scanner sets its \<^verbatim>\<open>tangle\<close> to \<^verbatim>\<open>no\<close>.
\<close>

theorem C1_noweb_ref_not_tangled:
  assumes "b \<in> set (extractBlocks doc path fp)"
    and "args = snd (parseHeaderArgs (trim (split_nl (normalize_eol doc) ! startLine b)))"
    and "truthy (js_or (args ''noweb-ref'') (args ''nowebRef''))"
    and "args ''tangle'' = None"
    and "h a = b"
  shows "\<forall>(p, as) \<in> set (groupByTarget pm h allBlocks). a \<notin> set as"
proof -
  from extractBlocks_opened[OF assms(1)] obtain pending where
    "headerArgs b = headerArgs (beginBlock fp path pending (startLine b)
                          (split_nl (normalize_eol doc) ! startLine b))"
    by blast
  then have "headerArgs (h a) ''tangle'' = Some (Str ''no'')"
    using assms(2-5) by (simp add: beginBlock_headerArgs mergeArgs_noweb_tangle)
  then have "targetOf pm (h a) = None"
    by (simp add: targetOf_def Let_def)
  then show ?thesis using groupByTarget_mem[of _ _ pm h allBlocks a] by fastforce
qed

text \<open>The theorem on a block with \<^verbatim>\<open>:noweb-ref lib\<close> under an inherited \<^verbatim>\<open>tangle\<close>.\<close>

theorem C1_noweb_ref_not_tangled_witness:
  "length (extractBlocks libDoc ''/w/d.org'' tangleProps) = 1
   \<and> split_nl (normalize_eol libDoc) ! startLine (extractBlocks libDoc ''/w/d.org'' tangleProps ! 0)
       = ''#+begin_src c :noweb-ref lib''
   \<and> snd (parseHeaderArgs (trim ''#+begin_src c :noweb-ref lib'')) ''noweb-ref'' = Some (Str ''lib'')
   \<and> snd (parseHeaderArgs (trim ''#+begin_src c :noweb-ref lib'')) ''tangle'' = None
   \<and> propsOf tangleProps ''*'' ''tangle'' = Some (Str ''o.ts'')
   \<and> 0 \<notin> \<Union> (set ` snd ` set (groupByTarget exPaths
                (\<lambda>a. extractBlocks libDoc ''/w/d.org'' tangleProps ! 0) [0]))"
proof -
  let ?E = "extractBlocks libDoc ''/w/d.org'' tangleProps"
  let ?line = "''#+begin_src c :noweb-ref lib''"
  let ?args = "snd (parseHeaderArgs (trim ?line))"
  have "length (map (\<lambda>b. (startLine b, content b)) ?E) = length [(0::nat, ''x'')]"
    by (simp only: lib_blocks)
  then have len: "length ?E = 1" by simp
  then have mem: "?E ! 0 \<in> set ?E" by simp
  have "map (\<lambda>b. (startLine b, content b)) ?E ! 0 = [(0::nat, ''x'')] ! 0"
    by (simp only: lib_blocks)
  with len have "startLine (?E ! 0) = 0" by simp
  then have l: "split_nl (normalize_eol libDoc) ! startLine (?E ! 0) = ?line"
    by (simp add: lib_line)
  have r: "?args ''noweb-ref'' = Some (Str ''lib'')" by code_simp
  then have t: "truthy (js_or (?args ''noweb-ref'') (?args ''nowebRef''))"
    by (simp add: js_or_def)
  have n: "?args ''tangle'' = None" by code_simp
  have g: "propsOf tangleProps ''*'' ''tangle'' = Some (Str ''o.ts'')"
    by (simp add: propsOf_def tangleProps_def)
  have "\<forall>(p, as) \<in> set (groupByTarget exPaths (\<lambda>a. ?E ! 0) [0]). 0 \<notin> set as"
    using C1_noweb_ref_not_tangled[where b="?E ! 0" and doc=libDoc and path="''/w/d.org''"
        and fp=tangleProps and args="?args" and h="\<lambda>a. ?E ! 0" and pm=exPaths
        and allBlocks="[0]" and a=0] mem l t n
    by simp
  then have "0 \<notin> \<Union> (set ` snd ` set (groupByTarget exPaths (\<lambda>a. ?E ! 0) [0]))"
    by fastforce
  with len l r n g show ?thesis by blast
qed

text \<open>
  C1 as the claim states it fails: the arguments of \<^verbatim>\<open>#+begin_src c :noweb-ref no\<close>
  hold the key \<^verbatim>\<open>noweb-ref\<close> (bound to false) and no \<^verbatim>\<open>tangle\<close>, and under the
  document property \<^verbatim>\<open>:tangle o.ts\<close> the block is placed in the target \<^verbatim>\<open>o.ts\<close>.
\<close>

theorem C1_falsy_noweb_ref_counterexample:
  "propsOf (extractFileProperties ''#+PROPERTY: header-args :tangle o.ts'') ''*'' ''tangle''
     = propsOf tangleProps ''*'' ''tangle''
   \<and> snd (parseHeaderArgs (trim ''#+begin_src c :noweb-ref no'')) ''noweb-ref'' = Some (Bool False)
   \<and> snd (parseHeaderArgs (trim ''#+begin_src c :noweb-ref no'')) ''tangle'' = None
   \<and> map (\<lambda>b. (split_nl (normalize_eol noDoc) ! startLine b, targetOf exPaths b))
        (extractBlocks noDoc ''/w/d.org'' tangleProps)
       = [(''#+begin_src c :noweb-ref no'', Some (''/w/o.ts''))]
   \<and> groupByTarget exPaths (\<lambda>a. extractBlocks noDoc ''/w/d.org'' tangleProps ! 0) [0] = [(''/w/o.ts'', [0])]"
proof -
  let ?E = "extractBlocks noDoc ''/w/d.org'' tangleProps"
  have a: "snd (parseHeaderArgs (trim ''#+begin_src c :noweb-ref no'')) ''noweb-ref'' = Some (Bool False)"
    by code_simp
  have b: "snd (parseHeaderArgs (trim ''#+begin_src c :noweb-ref no'')) ''tangle'' = None"
    by code_simp
  have c: "propsOf (extractFileProperties ''#+PROPERTY: header-args :tangle o.ts'') ''*'' ''tangle''
     = propsOf tangleProps ''*'' ''tangle''"
    by code_simp
  have d: "map (\<lambda>b. (split_nl (normalize_eol noDoc) ! startLine b, targetOf exPaths b)) ?E
       = [(''#+begin_src c :noweb-ref no'', Some (''/w/o.ts''))]"
    by code_simp
  have "length (map (\<lambda>b. (split_nl (normalize_eol noDoc) ! startLine b, targetOf exPaths b)) ?E)
      = length [(''#+begin_src c :noweb-ref no'', Some (''/w/o.ts''))]"
    by (simp only: d)
  then have len: "length ?E = 1" by simp
  have "map (\<lambda>b. (split_nl (normalize_eol noDoc) ! startLine b, targetOf exPaths b)) ?E ! 0
      = [(''#+begin_src c :noweb-ref no'', Some (''/w/o.ts''))] ! 0"
    by (simp only: d)
  with len have "targetOf exPaths (?E ! 0) = Some ''/w/o.ts''" by simp
  then have e: "groupByTarget exPaths (\<lambda>a. ?E ! 0) [0] = [(''/w/o.ts'', [0])]"
    by (simp add: groupByTarget_def index_push_def)
  from a b c d e show ?thesis by blast
qed

subsection \<open>Properties of a language\<close>

text \<open>
  C8, as amended. The properties of a language are found under the fence language of
  the block as it is written: the lookup is that of a key, with no change of letter
  case. For every block of a document and every key other than a \<^verbatim>\<open>tangle\<close> that the
  noweb-ref rule sets: an argument of the block itself wins; otherwise a property under
  exactly the fence language is inherited; otherwise (also when a tag differs from the
  fence language in letter case only) the key reads as in the global properties.
\<close>

theorem C8_language_props_exact:
  assumes "b \<in> set (extractBlocks doc path fp)"
    and "args = snd (parseHeaderArgs (trim (split_nl (normalize_eol doc) ! startLine b)))"
    and "\<not> (truthy (js_or (args ''noweb-ref'') (args ''nowebRef'')) \<and> args ''tangle'' = None \<and> k = ''tangle'')"
  shows "language b = fst (parseHeaderArgs (trim (split_nl (normalize_eol doc) ! startLine b)))
       \<and> (args k = Some v \<longrightarrow> headerArgs b k = Some v)
       \<and> (args k = None \<and> propsOf fp (language b) k = Some v \<longrightarrow> headerArgs b k = Some v)
       \<and> (args k = None \<and> propsOf fp (language b) k = None \<longrightarrow> headerArgs b k = propsOf fp ''*'' k)"
proof -
  let ?line = "split_nl (normalize_eol doc) ! startLine b"
  from extractBlocks_opened[OF assms(1)] obtain pending where
    l: "language b = language (beginBlock fp path pending (startLine b) ?line)"
    and g: "headerArgs b = headerArgs (beginBlock fp path pending (startLine b) ?line)"
    by blast
  from l have l': "language b = fst (parseHeaderArgs (trim ?line))"
    by (simp add: beginBlock_language)
  from g have g': "headerArgs b k = mergeArgs fp (language b) args k"
    by (simp add: beginBlock_headerArgs l' assms(2))
  show ?thesis
    using l' assms(3) unfolding g' mergeArgs_at
    by (auto split: option.splits)
qed

text \<open>The theorem on the three blocks of \<open>tsDoc\<close> under the property
  \<^verbatim>\<open>header-args:ts :tangle a.ts\<close>.\<close>

theorem C8_language_props_exact_witness:
  "length (extractBlocks tsDoc ''/w/d.org'' tsProps) = 3
   \<and> language (extractBlocks tsDoc ''/w/d.org'' tsProps ! 0) = ''ts''
   \<and> headerArgs (extractBlocks tsDoc ''/w/d.org'' tsProps ! 0) ''tangle'' = Some (Str ''b.ts'')
   \<and> language (extractBlocks tsDoc ''/w/d.org'' tsProps ! 1) = ''ts''
   \<and> headerArgs (extractBlocks tsDoc ''/w/d.org'' tsProps ! 1) ''tangle'' = Some (Str ''a.ts'')
   \<and> language (extractBlocks tsDoc ''/w/d.org'' tsProps ! 2) = ''TS''
   \<and> headerArgs (extractBlocks tsDoc ''/w/d.org'' tsProps ! 2) ''tangle'' = propsOf tsProps ''*'' ''tangle''"
proof -
  let ?E = "extractBlocks tsDoc ''/w/d.org'' tsProps"
  let ?f = "\<lambda>b. (startLine b, language b, headerArgs b ''tangle'')"
  let ?l0 = "''#+begin_src ts :tangle b.ts''"
  let ?l1 = "''#+begin_src ts''"
  let ?l2 = "''#+begin_src TS''"
  have "length (map ?f ?E) = 3" by (simp only: ts_blocks) simp
  then have len: "length ?E = 3" by simp
  then have mem: "?E ! 0 \<in> set ?E" "?E ! 1 \<in> set ?E" "?E ! 2 \<in> set ?E" by simp_all
  have "map ?f ?E ! 0 = (0, ''ts'', Some (Str ''b.ts''))" "map ?f ?E ! 1 = (2, ''ts'', Some (Str ''a.ts''))"
    "map ?f ?E ! 2 = (4, ''TS'', None)"
    by (simp_all only: ts_blocks) simp_all
  with len have st: "startLine (?E ! 0) = 0" "startLine (?E ! 1) = 2" "startLine (?E ! 2) = 4"
    by simp_all
  have a0: "snd (parseHeaderArgs (trim ?l0)) ''tangle'' = Some (Str ''b.ts'')" by code_simp
  have a1: "snd (parseHeaderArgs (trim ?l1)) ''tangle'' = None" by code_simp
  have a2: "snd (parseHeaderArgs (trim ?l2)) ''tangle'' = None" by code_simp
  have t0: "\<not> truthy (js_or (snd (parseHeaderArgs (trim ?l0)) ''noweb-ref'')
                         (snd (parseHeaderArgs (trim ?l0)) ''nowebRef''))" by code_simp
  have t1: "\<not> truthy (js_or (snd (parseHeaderArgs (trim ?l1)) ''noweb-ref'')
                         (snd (parseHeaderArgs (trim ?l1)) ''nowebRef''))" by code_simp
  have t2: "\<not> truthy (js_or (snd (parseHeaderArgs (trim ?l2)) ''noweb-ref'')
                         (snd (parseHeaderArgs (trim ?l2)) ''nowebRef''))" by code_simp
  have p0: "fst (parseHeaderArgs (trim ?l0)) = ''ts''" by code_simp
  have p1: "fst (parseHeaderArgs (trim ?l1)) = ''ts''" by code_simp
  have p2: "fst (parseHeaderArgs (trim ?l2)) = ''TS''" by code_simp
  have f1: "propsOf tsProps ''ts'' ''tangle'' = Some (Str ''a.ts'')" by code_simp
  have f2: "propsOf tsProps ''TS'' ''tangle'' = None" by code_simp
  note w0 = C8_language_props_exact[OF mem(1) refl, where k="''tangle''" and v="Str ''b.ts''"]
  note w1 = C8_language_props_exact[OF mem(2) refl, where k="''tangle''" and v="Str ''a.ts''"]
  note w2 = C8_language_props_exact[OF mem(3) refl, where k="''tangle''"]
  from w0 have r0: "language (?E ! 0) = ''ts'' \<and> headerArgs (?E ! 0) ''tangle'' = Some (Str ''b.ts'')"
    unfolding st ts_lines using a0 t0 p0 by simp
  from w1 have l1: "language (?E ! 1) = ''ts''"
    unfolding st ts_lines using a1 t1 p1 by simp
  from w1 have r1: "headerArgs (?E ! 1) ''tangle'' = Some (Str ''a.ts'')"
    unfolding st ts_lines l1 using a1 t1 f1 by simp
  from w2 have l2: "language (?E ! 2) = ''TS''"
    unfolding st ts_lines using a2 t2 p2 by simp
  from w2 have r2: "headerArgs (?E ! 2) ''tangle'' = propsOf tsProps ''*'' ''tangle''"
    unfolding st ts_lines l2 using a2 t2 f2 by simp
  from len r0 l1 r1 l2 r2 show ?thesis by blast
qed

text \<open>
  C8 as the claim states it fails: the fence language \<^verbatim>\<open>TS\<close> of the third block
  equals the tag \<^verbatim>\<open>ts\<close> in lower case, yet the block inherits no \<^verbatim>\<open>tangle\<close>,
  while the second block, with the fence \<^verbatim>\<open>ts\<close>, does.
\<close>

theorem C8_language_case_counterexample:
  "propsOf (extractFileProperties ''#+PROPERTY: header-args:ts :tangle a.ts'') ''ts'' ''tangle''
     = propsOf tsProps ''ts'' ''tangle''
   \<and> propsOf tsProps ''ts'' ''tangle'' = Some (Str ''a.ts'')
   \<and> toLowerCase ''TS'' = ''ts''
   \<and> map (\<lambda>b. (startLine b, language b, headerArgs b ''tangle'')) (extractBlocks tsDoc ''/w/d.org'' tsProps)
       = [(0, ''ts'', Some (Str ''b.ts'')), (2, ''ts'', Some (Str ''a.ts'')), (4, ''TS'', None)]"
proof -
  have a: "propsOf (extractFileProperties ''#+PROPERTY: header-args:ts :tangle a.ts'') ''ts'' ''tangle''
     = propsOf tsProps ''ts'' ''tangle''" by code_simp
  have b: "propsOf tsProps ''ts'' ''tangle'' = Some (Str ''a.ts'')" by code_simp
  have c: "toLowerCase ''TS'' = ''ts''" by code_simp
  have d: "map (\<lambda>b. (startLine b, language b, headerArgs b ''tangle'')) (extractBlocks tsDoc ''/w/d.org'' tsProps)
       = [(0, ''ts'', Some (Str ''b.ts'')), (2, ''ts'', Some (Str ''a.ts'')), (4, ''TS'', None)]"
    by code_simp
  from a b c d show ?thesis by blast
qed

section \<open>Properties of the scanner\<close>

lemma startsWith_take: "startsWith t p \<Longrightarrow> n \<le> length p \<Longrightarrow> take n t = take n p"
proof -
  assume a: "startsWith t p" and n: "n \<le> length p"
  then have "take n (take (length p) t) = take n p" by (simp add: startsWith_def)
  with n show ?thesis by (simp add: min_def)
qed

lemma name_not_example:
  assumes "startsWith t ''#+name:''"
  shows "\<not> startsWith t ''#+begin_example''" "\<not> startsWith t ''#+end_example''"
proof -
  have n: "take 3 t = ''#+n''" using startsWith_take[OF assms, of 3] by simp
  show "\<not> startsWith t ''#+begin_example''"
  proof
    assume "startsWith t ''#+begin_example''"
    from startsWith_take[OF this, of 3] n show False by simp
  qed
  show "\<not> startsWith t ''#+end_example''"
  proof
    assume "startsWith t ''#+end_example''"
    from startsWith_take[OF this, of 3] n show False by simp
  qed
qed

lemma begin_src_not_other:
  assumes "startsWith t ''#+begin_src''"
  shows "\<not> startsWith t ''#+begin_example''" "\<not> startsWith t ''#+end_example''"
    "\<not> startsWith t ''#+name:''"
proof -
  have n: "take 3 t = ''#+b''" using startsWith_take[OF assms, of 3] by simp
  have m: "take 9 t = ''#+begin_s''" using startsWith_take[OF assms, of 9] by simp
  show "\<not> startsWith t ''#+begin_example''"
  proof
    assume "startsWith t ''#+begin_example''"
    from startsWith_take[OF this, of 9] m show False by simp
  qed
  show "\<not> startsWith t ''#+end_example''"
  proof
    assume "startsWith t ''#+end_example''"
    from startsWith_take[OF this, of 3] n show False by simp
  qed
  show "\<not> startsWith t ''#+name:''"
  proof
    assume "startsWith t ''#+name:''"
    from startsWith_take[OF this, of 3] n show False by simp
  qed
qed

lemma scanLine_plain:
  "\<not> inBlock s \<Longrightarrow> \<not> inExampleBlock s \<Longrightarrow> \<not> startsWith l ''#+'' \<Longrightarrow> scanLine fp path s (i, l) = s"
  by (simp add: scanLine_def Let_def split: option.split)

lemma scanLines_plain:
  "\<not> inBlock s \<Longrightarrow> \<not> inExampleBlock s \<Longrightarrow> \<forall>il \<in> set mid. \<not> startsWith (snd il) ''#+''
     \<Longrightarrow> scanLines fp path s mid = s"
proof (induction mid)
  case Nil
  show ?case by (simp add: scanLines_def)
next
  case (Cons il mid)
  obtain i l where il: "il = (i, l)" by (cases il)
  with Cons.prems have "scanLine fp path s il = s" by (simp add: scanLine_plain)
  with Cons show ?case by (simp add: scanLines_def)
qed

lemma scanLine_name:
  assumes "\<not> inBlock s" "\<not> inExampleBlock s" "startsWith l ''#+''"
    and "startsWith (toLowerCase (trim l)) ''#+name:''"
  shows "scanLine fp path s (i, l) = s\<lparr>currentName := Some (nameOfLine l)\<rparr>"
  using assms name_not_example[OF assms(4)] by (simp add: scanLine_def Let_def)

lemma scanLine_begin:
  assumes "\<not> inBlock s" "\<not> inExampleBlock s" "startsWith l ''#+''"
    and "startsWith (toLowerCase (trim l)) ''#+begin_src''"
  shows "scanLine fp path s (i, l)
     = s\<lparr>currentBlock := Some (beginBlock fp path (currentName s) i l), inBlock := True,
         currentName := None\<rparr>"
  using assms begin_src_not_other[OF assms(4)] by (simp add: scanLine_def Let_def)

lemma scanLines_append: "scanLines fp path s (xs @ ys) = scanLines fp path (scanLines fp path s xs) ys"
  by (simp add: scanLines_def)

text \<open>
  C10. Outside a block and outside an example, a \<^verbatim>\<open>#+name:\<close> line at column zero
  sets the pending name; lines that do not begin with \<^verbatim>\<open>#+\<close> (prose, blank lines)
  leave the state as it is; the \<^verbatim>\<open>#+begin_src\<close> line that comes next opens a block
  that bears the name, and the pending name is cleared. A line changes the pending name
  only where it is such a \<^verbatim>\<open>#+name:\<close> line, which sets it, or such a
  \<^verbatim>\<open>#+begin_src\<close> line, whose block takes it.
\<close>

theorem C10_pending_name_kept:
  "(\<not> inBlock s \<and> \<not> inExampleBlock s
      \<and> startsWith nameLine ''#+'' \<and> startsWith (toLowerCase (trim nameLine)) ''#+name:''
      \<and> (\<forall>il \<in> set mid. \<not> startsWith (snd il) ''#+'')
      \<and> startsWith beginLine ''#+'' \<and> startsWith (toLowerCase (trim beginLine)) ''#+begin_src''
    \<longrightarrow> currentBlock (scanLines fp path s ((i, nameLine) # mid @ [(j, beginLine)]))
          = Some (beginBlock fp path (Some (nameOfLine nameLine)) j beginLine)
        \<and> name (beginBlock fp path (Some (nameOfLine nameLine)) j beginLine) = Some (nameOfLine nameLine)
        \<and> currentName (scanLines fp path s ((i, nameLine) # mid @ [(j, beginLine)])) = None)
   \<and> (currentName (scanLine fp path s (i, line)) \<noteq> currentName s
    \<longrightarrow> startsWith line ''#+'' \<and> \<not> inBlock s \<and> \<not> inExampleBlock s
        \<and> (startsWith (toLowerCase (trim line)) ''#+name:''
            \<or> startsWith (toLowerCase (trim line)) ''#+begin_src''))"
proof (intro conjI impI)
  assume a: "\<not> inBlock s \<and> \<not> inExampleBlock s
      \<and> startsWith nameLine ''#+'' \<and> startsWith (toLowerCase (trim nameLine)) ''#+name:''
      \<and> (\<forall>il \<in> set mid. \<not> startsWith (snd il) ''#+'')
      \<and> startsWith beginLine ''#+'' \<and> startsWith (toLowerCase (trim beginLine)) ''#+begin_src''"
  let ?s1 = "s\<lparr>currentName := Some (nameOfLine nameLine)\<rparr>"
  have s1: "scanLine fp path s (i, nameLine) = ?s1" using a by (simp add: scanLine_name)
  have o1: "\<not> inBlock ?s1" "\<not> inExampleBlock ?s1" using a by simp_all
  have s2: "scanLines fp path ?s1 mid = ?s1" using o1 a by (simp add: scanLines_plain)
  have s3: "scanLine fp path ?s1 (j, beginLine)
     = ?s1\<lparr>currentBlock := Some (beginBlock fp path (currentName ?s1) j beginLine), inBlock := True,
         currentName := None\<rparr>"
    using o1 a by (intro scanLine_begin) simp_all
  have all: "scanLines fp path s ((i, nameLine) # mid @ [(j, beginLine)])
     = scanLine fp path (scanLines fp path (scanLine fp path s (i, nameLine)) mid) (j, beginLine)"
    by (simp add: scanLines_def)
  show "currentBlock (scanLines fp path s ((i, nameLine) # mid @ [(j, beginLine)]))
          = Some (beginBlock fp path (Some (nameOfLine nameLine)) j beginLine)"
    unfolding all s1 s2 s3 by simp
  show "currentName (scanLines fp path s ((i, nameLine) # mid @ [(j, beginLine)])) = None"
    unfolding all s1 s2 s3 by simp
  show "name (beginBlock fp path (Some (nameOfLine nameLine)) j beginLine) = Some (nameOfLine nameLine)"
    by (simp add: beginBlock_def split: prod.split)
next
  assume "currentName (scanLine fp path s (i, line)) \<noteq> currentName s"
  then show "startsWith line ''#+''" "\<not> inBlock s" "\<not> inExampleBlock s"
    "startsWith (toLowerCase (trim line)) ''#+name:''
            \<or> startsWith (toLowerCase (trim line)) ''#+begin_src''"
    by (auto simp: scanLine_def Let_def split: if_splits option.splits)
qed

text \<open>The theorem on a name line, a line of prose, a blank line and a fence.\<close>

theorem C10_pending_name_kept_witness:
  "nameOfLine ''#+name: foo'' = ''foo''
   \<and> map_option name (currentBlock (scanLines Map.empty ''/w/d.org'' scan_init
         ((0, ''#+name: foo'') # [(1, ''some prose''), (2, [])] @ [(3, ''#+begin_src c'')])))
       = Some (Some ''foo'')
   \<and> currentName (scanLines Map.empty ''/w/d.org'' scan_init
         ((0, ''#+name: foo'') # [(1, ''some prose''), (2, [])] @ [(3, ''#+begin_src c'')])) = None
   \<and> currentName (scanLine Map.empty ''/w/d.org'' scan_init (0, ''#+name: foo'')) \<noteq> currentName scan_init
   \<and> startsWith (toLowerCase (trim ''#+name: foo'')) ''#+name:''"
proof -
  have n: "nameOfLine ''#+name: foo'' = ''foo''" by code_simp
  have h1: "\<not> inBlock scan_init \<and> \<not> inExampleBlock scan_init" by (simp add: scan_init_def)
  have h2: "startsWith ''#+name: foo'' ''#+'' \<and> startsWith (toLowerCase (trim ''#+name: foo'')) ''#+name:''"
    by code_simp
  have h3: "\<forall>il \<in> set [(1::nat, ''some prose''), (2, [])]. \<not> startsWith (snd il) ''#+''"
    by (simp add: startsWith_def)
  have h4: "startsWith ''#+begin_src c'' ''#+'' \<and> startsWith (toLowerCase (trim ''#+begin_src c'')) ''#+begin_src''"
    by code_simp
  have c: "currentName (scanLine Map.empty ''/w/d.org'' scan_init (0, ''#+name: foo'')) \<noteq> currentName scan_init"
    by code_simp
  note t = C10_pending_name_kept[where s=scan_init and nameLine="''#+name: foo''"
      and mid="[(1, ''some prose''), (2, [])]" and beginLine="''#+begin_src c''"
      and fp=Map.empty and path="''/w/d.org''" and i=0 and j=3 and line="''#+name: foo''"]
  from t h1 h2 h3 h4 have
    "currentBlock (scanLines Map.empty ''/w/d.org'' scan_init
         ((0, ''#+name: foo'') # [(1, ''some prose''), (2, [])] @ [(3, ''#+begin_src c'')]))
       = Some (beginBlock Map.empty ''/w/d.org'' (Some (nameOfLine ''#+name: foo'')) 3 ''#+begin_src c'')"
    and "name (beginBlock Map.empty ''/w/d.org'' (Some (nameOfLine ''#+name: foo'')) 3 ''#+begin_src c'')
       = Some (nameOfLine ''#+name: foo'')"
    and "currentName (scanLines Map.empty ''/w/d.org'' scan_init
         ((0, ''#+name: foo'') # [(1, ''some prose''), (2, [])] @ [(3, ''#+begin_src c'')])) = None"
    by blast+
  moreover from t c have "startsWith (toLowerCase (trim ''#+name: foo'')) ''#+name:''
      \<or> startsWith (toLowerCase (trim ''#+name: foo'')) ''#+begin_src''" by blast
  ultimately show ?thesis using n c h2 by simp
qed

text \<open>A whole document: the first block takes the name, the second has none.\<close>

lemma pending_name_document:
  "map (\<lambda>b. (name b, content b))
     (extractBlocks (join_nl [''#+name: foo'', ''prose'', [], ''#+begin_src c'', ''x'', ''#+end_src'',
                              ''#+begin_src c'', ''y'', ''#+end_src''])
        ''/w/d.org'' Map.empty)
   = [(Some ''foo'', ''x''), (None, ''y'')]"
  by code_simp

section \<open>Properties of the text of a target\<close>


lemma startsWith_nonempty: "startsWith l ''#!'' \<Longrightarrow> l \<noteq> []"
  by (auto simp: startsWith_def)




lemma findShebang_line:
  "\<not> truthy (headerArgs (h a) ''shebang'') \<Longrightarrow> startsWith (firstLineOf (content (h a))) ''#!''
   \<Longrightarrow> findShebang h (a # post)
       = (Some (Str (firstLineOf (content (h a)))),
          h(a := (h a)\<lparr>content := drop (length (firstLineOf (content (h a))) + 1) (content (h a))\<rparr>))"
  by (simp add: Let_def firstLineOf_def startsWith_nonempty)

lemma generateContent_eq:
  "generateContent pm h tblocks idx targetPath
     = (join_nl ((case fst (findShebang h tblocks) of None \<Rightarrow> [] | Some v \<Rightarrow> [js_str v])
          @ headerParts pm (snd (findShebang h tblocks)) tblocks targetPath
              (\<not> skipsComments h tblocks targetPath \<and> getCommentPrefix targetPath \<noteq> [])
          @ concat (map (blockParts pm (snd (findShebang h tblocks)) idx targetPath
              (\<not> skipsComments h tblocks targetPath \<and> getCommentPrefix targetPath \<noteq> [])) tblocks)),
        snd (findShebang h tblocks))"
  by (simp add: generateContent_def Let_def split: prod.split)


lemma findShebang_same:
  "findShebang h bs = (v, h') \<Longrightarrow>
     h' = h \<or> (\<exists>a \<in> set bs. startsWith (firstLineOf (content (h a))) ''#!''
                 \<and> h' = h(a := (h a)\<lparr>content := drop (length (firstLineOf (content (h a))) + 1) (content (h a))\<rparr>))"
proof (induction bs)
  case Nil
  then show ?case by simp
next
  case (Cons a bs)
  show ?case
  proof (cases "truthy (headerArgs (h a) ''shebang'')")
    case True
    with Cons.prems show ?thesis by (simp add: Let_def)
  next
    case False
    show ?thesis
    proof (cases "startsWith (firstLineOf (content (h a))) ''#!''")
      case True
      from findShebang_line[where h=h and a=a and post=bs] False True Cons.prems
      have "h' = h(a := (h a)\<lparr>content := drop (length (firstLineOf (content (h a))) + 1) (content (h a))\<rparr>)"
        by (simp del: findShebang.simps)
      with True show ?thesis by (simp del: findShebang.simps)
    next
      case no: False
      with False Cons.prems have "findShebang h bs = (v, h')"
        by (simp add: Let_def)
      from Cons.IH[OF this] show ?thesis by auto
    qed
  qed
qed

lemma indexBlock_cong:
  assumes n: "name (h' a) = name (h a)" and g: "headerArgs (h' a) = headerArgs (h a)"
  shows "indexBlock h' idx a = indexBlock h idx a"
  unfolding indexBlock_def Let_def n g by (rule refl)

lemma buildBlockIndex_cong:
  assumes "\<forall>a. name (h' a) = name (h a) \<and> headerArgs (h' a) = headerArgs (h a)"
  shows "buildBlockIndex h' bs = buildBlockIndex h bs"
proof -
  have step: "indexBlock h' idx a = indexBlock h idx a" for idx a
    using assms by (intro indexBlock_cong) simp_all
  have "foldl (indexBlock h') idx bs = foldl (indexBlock h) idx bs" for idx
    by (induction bs arbitrary: idx) (simp_all add: step)
  then show ?thesis by (simp add: buildBlockIndex_def)
qed

subsection \<open>A target of three blocks\<close>

definition scriptHeap :: heap where
  \<comment> \<open>block 0 is named \<^verbatim>\<open>s\<close> and begins with a shebang line; block 1 bears a
      \<^verbatim>\<open>shebang\<close> argument; the other blocks have neither\<close>
  "scriptHeap = (\<lambda>a. if a = 0 then exBlock (Some ''s'') [''tangle'' \<mapsto> Str ''run.txt''] ''#!/bin/sh\<newline>echo''
                     else if a = 1 then exBlock None [''tangle'' \<mapsto> Str ''run.txt'', ''shebang'' \<mapsto> Str ''#!/bin/node''] ''x''
                     else exBlock None [''tangle'' \<mapsto> Str ''run.txt''] ''y'')"

lemma script_index: "buildBlockIndex scriptHeap [0, 1, 2] = [(Str ''s'', [0])]"
  by code_simp


subsection \<open>The shebang\<close>




subsection \<open>What the assembly changes in the store\<close>

text \<open>
  C6, as amended. Building the index and expanding references read the store and return
  none: they change no block. Generating the text of a target changes at most one block,
  one of the target whose content begins with \<^verbatim>\<open>#!\<close>, and of that block only the
  content, which loses its first line; every other field of every block stays, and so
  does the index that the blocks give.
\<close>

theorem C6_only_shebang_content_changes:
  assumes "generateContent pm h tblocks idx targetPath = (out, h')"
  shows "(\<forall>a. (h' a)\<lparr>content := content (h a)\<rparr> = h a)
       \<and> (\<forall>a. h' a \<noteq> h a \<longrightarrow>
              a \<in> set tblocks \<and> startsWith (firstLineOf (content (h a))) ''#!''
              \<and> content (h' a) = drop (length (firstLineOf (content (h a))) + 1) (content (h a)))
       \<and> (\<exists>a. \<forall>b. b \<noteq> a \<longrightarrow> h' b = h b)
       \<and> buildBlockIndex h' allBlocks = buildBlockIndex h allBlocks"
proof -
  from assms have "snd (findShebang h tblocks) = h'"
    by (simp add: generateContent_eq)
  then have "findShebang h tblocks = (fst (findShebang h tblocks), h')"
    by (metis prod.collapse)
  from findShebang_same[OF this]
  consider (same) "h' = h"
    | (cut) a where "a \<in> set tblocks" "startsWith (firstLineOf (content (h a))) ''#!''"
        "h' = h(a := (h a)\<lparr>content := drop (length (firstLineOf (content (h a))) + 1) (content (h a))\<rparr>)"
    by blast
  then show ?thesis
  proof cases
    case same
    then show ?thesis by simp
  next
    case cut
    have 1: "\<forall>b. (h' b)\<lparr>content := content (h b)\<rparr> = h b" using cut(3) by simp
    have 2: "\<forall>b. h' b \<noteq> h b \<longrightarrow>
              b \<in> set tblocks \<and> startsWith (firstLineOf (content (h b))) ''#!''
              \<and> content (h' b) = drop (length (firstLineOf (content (h b))) + 1) (content (h b))"
      using cut by simp
    have 3: "\<exists>a. \<forall>b. b \<noteq> a \<longrightarrow> h' b = h b" using cut(3) by auto
    have "\<forall>b. name (h' b) = name (h b) \<and> headerArgs (h' b) = headerArgs (h b)"
      using cut(3) by simp
    then have 4: "buildBlockIndex h' allBlocks = buildBlockIndex h allBlocks"
      by (rule buildBlockIndex_cong)
    from 1 2 3 4 show ?thesis by blast
  qed
qed

text \<open>The theorem on the target of \<open>scriptHeap\<close>.\<close>

theorem C6_only_shebang_content_changes_witness:
  "(snd (generateContent exPaths scriptHeap [0, 1] [(Str ''s'', [0])] ''/w/run.txt'') 0)
       \<lparr>content := content (scriptHeap 0)\<rparr> = scriptHeap 0
   \<and> content (snd (generateContent exPaths scriptHeap [0, 1] [(Str ''s'', [0])] ''/w/run.txt'') 0) = ''echo''
   \<and> content (scriptHeap 0) = ''#!/bin/sh\<newline>echo''
   \<and> startsWith (firstLineOf (content (scriptHeap 0))) ''#!''
   \<and> buildBlockIndex (snd (generateContent exPaths scriptHeap [0, 1] [(Str ''s'', [0])] ''/w/run.txt'')) [0, 1, 2]
       = buildBlockIndex scriptHeap [0, 1, 2]"
proof -
  let ?G = "generateContent exPaths scriptHeap [0, 1] [(Str ''s'', [0])] ''/w/run.txt''"
  have g: "?G = (fst ?G, snd ?G)" by simp
  note t = C6_only_shebang_content_changes[OF g, where allBlocks="[0, 1, 2]"]
  have c: "content (snd ?G 0) = ''echo''" by code_simp
  have c0: "content (scriptHeap 0) = ''#!/bin/sh\<newline>echo''" by code_simp
  from c c0 have ne: "snd ?G 0 \<noteq> scriptHeap 0" by auto
  from t have 1: "(snd ?G 0)\<lparr>content := content (scriptHeap 0)\<rparr> = scriptHeap 0" by blast
  from t ne have 2: "startsWith (firstLineOf (content (scriptHeap 0))) ''#!''" by blast
  from t have 3: "buildBlockIndex (snd ?G) [0, 1, 2] = buildBlockIndex scriptHeap [0, 1, 2]" by blast
  from 1 c c0 2 3 show ?thesis by blast
qed

text \<open>
  C6 as the claim states it fails: generating the target cuts the shebang line off the
  content of block 0, and a reference to the block through the index, which gave two
  lines before, gives one after.
\<close>

theorem C6_content_modified_counterexample:
  "content (scriptHeap 0) = ''#!/bin/sh\<newline>echo''
   \<and> content (snd (generateContent exPaths scriptHeap [0, 1] (buildBlockIndex scriptHeap [0, 1, 2]) ''/w/run.txt'') 0)
       = ''echo''
   \<and> expandNoweb scriptHeap (buildBlockIndex scriptHeap [0, 1, 2]) {} [] ''<<s>>'' = ''#!/bin/sh\<newline>echo''
   \<and> expandNoweb (snd (generateContent exPaths scriptHeap [0, 1] (buildBlockIndex scriptHeap [0, 1, 2]) ''/w/run.txt''))
         (buildBlockIndex scriptHeap [0, 1, 2]) {} [] ''<<s>>'' = ''echo''"
proof -
  have a: "content (scriptHeap 0) = ''#!/bin/sh\<newline>echo''" by code_simp
  have b: "content (snd (generateContent exPaths scriptHeap [0, 1] [(Str ''s'', [0])] ''/w/run.txt'') 0) = ''echo''"
    by code_simp
  have c: "expandNoweb scriptHeap [(Str ''s'', [0])] {} [] ''<<s>>'' = ''#!/bin/sh\<newline>echo''"
    by code_simp
  have d: "expandNoweb (snd (generateContent exPaths scriptHeap [0, 1] [(Str ''s'', [0])] ''/w/run.txt''))
         [(Str ''s'', [0])] {} [] ''<<s>>'' = ''echo''"
    by code_simp
  from a b c d show ?thesis unfolding script_index by blast
qed

section \<open>Properties of the run\<close>

lemma writeTargets_stops:
  "thrown st = None \<Longrightarrow> thrown (writeTargets ops pm idx dryRun st ts1) = Some err
     \<Longrightarrow> writeTargets ops pm idx dryRun st (ts1 @ ts2) = writeTargets ops pm idx dryRun st ts1"
proof (induction ts1 arbitrary: st)
  case Nil
  then show ?case by simp
next
  case (Cons t ts1)
  obtain p bs where t: "t = (p, bs)" by (cases t)
  obtain body h' where g: "generateContent pm (store st) bs idx p = (body, h')"
    by (cases "generateContent pm (store st) bs idx p")
  show ?case
  proof (cases dryRun)
    case True
    with Cons.prems t g have "thrown (writeTargets ops pm idx dryRun (st\<lparr>store := h'\<rparr>) ts1) = Some err"
      by simp
    with Cons.IH[of "st\<lparr>store := h'\<rparr>"] Cons.prems(1) True t g show ?thesis by simp
  next
    case False
    show ?thesis
    proof (cases "if \<not> existsSync ops (files st) (dirname pm p) then mkdirSync ops (files st) (dirname pm p)
                  else Inr (files st)")
      case (Inl e)
      with False t g show ?thesis by (simp add: Let_def)
    next
      case (Inr fs1)
      show ?thesis
      proof (cases "writeFileSync ops fs1 p body")
        case (Inl e)
        with Inr False t g show ?thesis by (simp add: Let_def)
      next
        case w: (Inr fs2)
        let ?st = "st\<lparr>files := fs2, store := h', written := written st + 1\<rparr>"
        from Cons.prems t g False Inr w
        have "thrown (writeTargets ops pm idx dryRun ?st ts1) = Some err" by (simp add: Let_def)
        with Cons.IH[of ?st] Cons.prems(1) False Inr w t g show ?thesis by (simp add: Let_def)
      qed
    qed
  qed
qed

subsection \<open>Two targets and two file systems\<close>

definition twoHeap :: heap where
  \<comment> \<open>two blocks, tangled to two files\<close>
  "twoHeap = (\<lambda>a. if a = 0 then exBlock None [''tangle'' \<mapsto> Str ''a.txt''] ''x''
                  else exBlock None [''tangle'' \<mapsto> Str ''b.txt''] ''y'')"

definition failOps :: "(string \<times> string) list fs_ops" where
  \<comment> \<open>a file system, as the list of the files written, where every directory exists and
      the one file \<^verbatim>\<open>/w/a.txt\<close> cannot be written\<close>
  "failOps = \<lparr> existsSync = (\<lambda>fs d. True), mkdirSync = (\<lambda>fs d. Inr fs),
               writeFileSync = (\<lambda>fs p c. if p = ''/w/a.txt'' then Inl ''EACCES'' else Inr (fs @ [(p, c)])) \<rparr>"

definition noDirOps :: "(string \<times> string) list fs_ops" where
  \<comment> \<open>a file system where no directory exists and none can be made\<close>
  "noDirOps = \<lparr> existsSync = (\<lambda>fs d. False), mkdirSync = (\<lambda>fs d. Inl ''EROFS''),
                writeFileSync = (\<lambda>fs p c. Inr (fs @ [(p, c)])) \<rparr>"

definition twoStart :: "(string \<times> string) list run_state" where
  "twoStart = \<lparr> thrown = None, files = [], store = twoHeap, written = 0 \<rparr>"

lemma two_targets: "groupByTarget exPaths twoHeap [0, 1] = [(''/w/a.txt'', [0]), (''/w/b.txt'', [1])]"
  by code_simp

subsection \<open>A failure of the file system\<close>

text \<open>
  C5, as amended. When creating the directory of a target or writing its file fails, the
  run stops there: the error leaves the loop and \<^verbatim>\<open>main\<close>, it is printed and the exit
  code is 1; the targets before it are written, and no target after it is generated or
  written, whatever comes after. The state of the run is that at the failure.
\<close>

theorem C5_write_failure_stops_run:
  "(thrown st = None \<and> thrown (writeTargets ops pm idx dryRun st tsA) = Some err
      \<longrightarrow> writeTargets ops pm idx dryRun st (tsA @ tsB) = writeTargets ops pm idx dryRun st tsA
        \<and> exitCode (writeTargets ops pm idx dryRun st (tsA @ tsB)) = 1)
   \<and> (generateContent pm (store st) tblocks idx targetPath = (body, h')
        \<and> \<not> existsSync ops (files st) (dirname pm targetPath)
        \<and> mkdirSync ops (files st) (dirname pm targetPath) = Inl err
      \<longrightarrow> writeTargets ops pm idx False st ((targetPath, tblocks) # rest)
          = st\<lparr>thrown := Some err, store := h'\<rparr>)
   \<and> (generateContent pm (store st) tblocks idx targetPath = (body, h')
        \<and> existsSync ops (files st) (dirname pm targetPath)
        \<and> writeFileSync ops (files st) targetPath body = Inl err
      \<longrightarrow> writeTargets ops pm idx False st ((targetPath, tblocks) # rest)
          = st\<lparr>thrown := Some err, store := h'\<rparr>)"
proof (intro conjI impI)
  assume a: "thrown st = None \<and> thrown (writeTargets ops pm idx dryRun st tsA) = Some err"
  then show e: "writeTargets ops pm idx dryRun st (tsA @ tsB) = writeTargets ops pm idx dryRun st tsA"
    by (simp add: writeTargets_stops)
  from a show "exitCode (writeTargets ops pm idx dryRun st (tsA @ tsB)) = 1"
    unfolding e by (simp add: exitCode_def)
next
  assume "generateContent pm (store st) tblocks idx targetPath = (body, h')
        \<and> \<not> existsSync ops (files st) (dirname pm targetPath)
        \<and> mkdirSync ops (files st) (dirname pm targetPath) = Inl err"
  then show "writeTargets ops pm idx False st ((targetPath, tblocks) # rest)
          = st\<lparr>thrown := Some err, store := h'\<rparr>"
    by (simp add: Let_def)
next
  assume "generateContent pm (store st) tblocks idx targetPath = (body, h')
        \<and> existsSync ops (files st) (dirname pm targetPath)
        \<and> writeFileSync ops (files st) targetPath body = Inl err"
  then show "writeTargets ops pm idx False st ((targetPath, tblocks) # rest)
          = st\<lparr>thrown := Some err, store := h'\<rparr>"
    by (simp add: Let_def)
qed

text \<open>The theorem on two targets, where the file of the first cannot be written, and
  where its directory cannot be made.\<close>

theorem C5_write_failure_stops_run_witness:
  "thrown twoStart = None
   \<and> thrown (writeTargets failOps exPaths [] False twoStart [(''/w/a.txt'', [0])]) = Some ''EACCES''
   \<and> writeTargets failOps exPaths [] False twoStart ([(''/w/a.txt'', [0])] @ [(''/w/b.txt'', [1])])
       = writeTargets failOps exPaths [] False twoStart [(''/w/a.txt'', [0])]
   \<and> exitCode (writeTargets failOps exPaths [] False twoStart ([(''/w/a.txt'', [0])] @ [(''/w/b.txt'', [1])])) = 1
   \<and> thrown (writeTargets noDirOps exPaths [] False twoStart ((''/w/a.txt'', [0]) # [(''/w/b.txt'', [1])]))
       = Some ''EROFS''
   \<and> files (writeTargets failOps exPaths [] False twoStart ((''/w/a.txt'', [0]) # [(''/w/b.txt'', [1])])) = []"
proof -
  let ?G = "generateContent exPaths (store twoStart) [0] [] ''/w/a.txt''"
  have g: "?G = (fst ?G, snd ?G)" by simp
  have t0: "thrown twoStart = None" by (simp add: twoStart_def)
  have t1: "thrown (writeTargets failOps exPaths [] False twoStart [(''/w/a.txt'', [0])]) = Some ''EACCES''"
    by code_simp
  have m: "\<not> existsSync noDirOps (files twoStart) (dirname exPaths ''/w/a.txt'')"
    "mkdirSync noDirOps (files twoStart) (dirname exPaths ''/w/a.txt'') = Inl ''EROFS''"
    by (simp_all add: noDirOps_def)
  have w: "existsSync failOps (files twoStart) (dirname exPaths ''/w/a.txt'')"
    "writeFileSync failOps (files twoStart) ''/w/a.txt'' (fst ?G) = Inl ''EACCES''"
    by (simp_all add: failOps_def)
  note a = C5_write_failure_stops_run[where st=twoStart and ops=failOps and pm=exPaths and idx="[]"
      and dryRun=False and tsA="[(''/w/a.txt'', [0])]" and tsB="[(''/w/b.txt'', [1])]" and err="''EACCES''"
      and tblocks="[0]" and targetPath="''/w/a.txt''" and body="fst ?G" and h'="snd ?G"
      and rest="[(''/w/b.txt'', [1])]"]
  note b = C5_write_failure_stops_run[where st=twoStart and ops=noDirOps and pm=exPaths and idx="[]"
      and err="''EROFS''" and tblocks="[0]" and targetPath="''/w/a.txt''" and body="fst ?G" and h'="snd ?G"
      and rest="[(''/w/b.txt'', [1])]"]
  from a t0 t1 have 1: "writeTargets failOps exPaths [] False twoStart ([(''/w/a.txt'', [0])] @ [(''/w/b.txt'', [1])])
       = writeTargets failOps exPaths [] False twoStart [(''/w/a.txt'', [0])]"
    and 2: "exitCode (writeTargets failOps exPaths [] False twoStart ([(''/w/a.txt'', [0])] @ [(''/w/b.txt'', [1])])) = 1"
    by blast+
  from b g m have "writeTargets noDirOps exPaths [] False twoStart ((''/w/a.txt'', [0]) # [(''/w/b.txt'', [1])])
      = twoStart\<lparr>thrown := Some ''EROFS'', store := snd ?G\<rparr>"
    by blast
  then have 3: "thrown (writeTargets noDirOps exPaths [] False twoStart ((''/w/a.txt'', [0]) # [(''/w/b.txt'', [1])]))
       = Some ''EROFS''"
    by (simp del: writeTargets.simps)
  from a g w have "writeTargets failOps exPaths [] False twoStart ((''/w/a.txt'', [0]) # [(''/w/b.txt'', [1])])
      = twoStart\<lparr>thrown := Some ''EACCES'', store := snd ?G\<rparr>"
    by blast
  then have 4: "files (writeTargets failOps exPaths [] False twoStart ((''/w/a.txt'', [0]) # [(''/w/b.txt'', [1])])) = []"
    by (simp add: twoStart_def del: writeTargets.simps)
  from t0 t1 1 2 3 4 show ?thesis by blast
qed

text \<open>
  C5 as the claim states it fails: the file of the second target could be written, but
  after the failure on the first it is not, and nothing is; with the two blocks in the
  other order it is written before the failure.
\<close>

theorem C5_later_target_counterexample:
  "groupByTarget exPaths twoHeap [0, 1] = [(''/w/a.txt'', [0]), (''/w/b.txt'', [1])]
   \<and> writeFileSync failOps [] ''/w/b.txt'' ''y'' = Inr [(''/w/b.txt'', ''y'')]
   \<and> thrown (tangleTargets failOps exPaths False twoHeap [0, 1] []) = Some ''EACCES''
   \<and> files (tangleTargets failOps exPaths False twoHeap [0, 1] []) = []
   \<and> written (tangleTargets failOps exPaths False twoHeap [0, 1] []) = 0
   \<and> files (tangleTargets failOps exPaths False twoHeap [1, 0] []) = [(''/w/b.txt'', ''y'')]"
proof -
  have a: "writeFileSync failOps [] ''/w/b.txt'' ''y'' = Inr [(''/w/b.txt'', ''y'')]" by code_simp
  have b: "thrown (tangleTargets failOps exPaths False twoHeap [0, 1] []) = Some ''EACCES''" by code_simp
  have c: "files (tangleTargets failOps exPaths False twoHeap [0, 1] []) = []" by code_simp
  have d: "written (tangleTargets failOps exPaths False twoHeap [0, 1] []) = 0" by code_simp
  have e: "files (tangleTargets failOps exPaths False twoHeap [1, 0] []) = [(''/w/b.txt'', ''y'')]"
    by code_simp
  from two_targets a b c d e show ?thesis by blast
qed

end
